theory Spec2Isabelle
  imports Complex_Main
begin

section \<open>JavaScript numbers\<close>

text \<open>
  Every number of \<^verbatim>\<open>voronoi3d.js\<close> is an IEEE 754 binary64 value and every arithmetic
  operation rounds its exact result to the nearest such value, ties to even. A number is
  modelled by the real it denotes and an operation by the exact operation followed by
  \<open>fl\<close>, the rounding to 53 significant bits. The exponent range is not bounded: overflow
  to an infinity, gradual underflow, NaN and the sign of zero are outside the model.
\<close>

definition rhe :: "real \<Rightarrow> int" where
  "rhe t = (let f = \<lfloor>t\<rfloor>; r = t - of_int f in
            if r < 1/2 then f else if 1/2 < r then f + 1
            else if even f then f else f + 1)"

definition ulp_exp :: "real \<Rightarrow> int" where
  "ulp_exp v = \<lfloor>log 2 \<bar>v\<bar>\<rfloor> - 52"

definition fl :: "real \<Rightarrow> real" where
  "fl v = (if v = 0 then 0 else of_int (rhe (v / 2 powi ulp_exp v)) * 2 powi ulp_exp v)"

text \<open>
  \<open>fl_at e v\<close> rounds \<open>v\<close> to a multiple of \<open>2 powi e\<close>; \<open>ilen\<close> is the bit length of
  a numeral. Together they let the simplifier compute \<open>fl\<close> on a literal.
\<close>

definition fl_at :: "int \<Rightarrow> real \<Rightarrow> real" where
  "fl_at e v = of_int (rhe (v / 2 powi e)) * 2 powi e"

fun numlen :: "num \<Rightarrow> nat" where
  "numlen num.One = 1"
| "numlen (num.Bit0 n) = Suc (numlen n)"
| "numlen (num.Bit1 n) = Suc (numlen n)"

fun ilen :: "num \<Rightarrow> int" where
  "ilen num.One = 1"
| "ilen (num.Bit0 n) = ilen n + 1"
| "ilen (num.Bit1 n) = ilen n + 1"

definition fadd :: "real \<Rightarrow> real \<Rightarrow> real" where
  "fadd a b = fl (a + b)"

definition fsub :: "real \<Rightarrow> real \<Rightarrow> real" where
  "fsub a b = fl (a - b)"

definition fmul :: "real \<Rightarrow> real \<Rightarrow> real" where
  "fmul a b = fl (a * b)"

text \<open>\<open>fdiv\<close> is used where the divisor is not zero.\<close>

definition fdiv :: "real \<Rightarrow> real \<Rightarrow> real" where
  "fdiv a b = fl (a / b)"

definition Math_sqrt :: "real \<Rightarrow> real" where
  "Math_sqrt a = fl (sqrt a)"

text \<open>The angle of the point \<open>(u, w)\<close>, in \<open>(-pi, pi]\<close>, and its rounding.\<close>

definition atan2 :: "real \<Rightarrow> real \<Rightarrow> real" where
  "atan2 w u =
     (if 0 < u then arctan (w / u)
      else if u < 0 then (if 0 \<le> w then arctan (w / u) + pi else arctan (w / u) - pi)
      else if 0 < w then pi / 2 else if w < 0 then - (pi / 2) else 0)"

definition Math_atan2 :: "real \<Rightarrow> real \<Rightarrow> real" where
  "Math_atan2 w u = fl (atan2 w u)"

text \<open>\<^verbatim>\<open>const EPSILON = 1e-10\<close>: the literal denotes the nearest binary64 value.\<close>

definition EPSILON :: real where
  "EPSILON = fl (1 / 10000000000)"

text \<open>
  \<^verbatim>\<open>Array.prototype.sort(cmp)\<close> is stable; with a comparator whose sign orders the
  elements its result is that of the stable insertion sort below.
\<close>

fun insert_cmp :: "('a \<Rightarrow> 'a \<Rightarrow> real) \<Rightarrow> 'a \<Rightarrow> 'a list \<Rightarrow> 'a list" where
  "insert_cmp c a [] = [a]"
| "insert_cmp c a (b # bs) = (if c a b \<le> 0 then a # b # bs else b # insert_cmp c a bs)"

definition sort_cmp :: "('a \<Rightarrow> 'a \<Rightarrow> real) \<Rightarrow> 'a list \<Rightarrow> 'a list" where
  "sort_cmp c bs = foldr (insert_cmp c) bs []"

text \<open>The elements of a \<^verbatim>\<open>Set\<close> in insertion order: first occurrences only.\<close>

fun uniq :: "'a list \<Rightarrow> 'a list" where
  "uniq [] = []"
| "uniq (a # as) = a # uniq (filter (\<lambda>b. b \<noteq> a) as)"

text \<open>
  \<^verbatim>\<open>Math.max(...ds)\<close>; \<open>None\<close> is \<^verbatim>\<open>-Infinity\<close>, the value on no arguments.
\<close>

fun Math_max :: "real list \<Rightarrow> real option" where
  "Math_max [] = None"
| "Math_max (a # as) = (case Math_max as of None \<Rightarrow> Some a | Some m \<Rightarrow> Some (max a m))"

section \<open>Vec3 and Plane\<close>

datatype vec3 = Vec3 (vx: real) (vy: real) (vz: real)

definition sub_vec :: "vec3 \<Rightarrow> vec3 \<Rightarrow> vec3" where
  "sub_vec a b = Vec3 (fsub (vx a) (vx b)) (fsub (vy a) (vy b)) (fsub (vz a) (vz b))"

definition scale :: "vec3 \<Rightarrow> real \<Rightarrow> vec3" where
  "scale a s = Vec3 (fmul (vx a) s) (fmul (vy a) s) (fmul (vz a) s)"

definition dot :: "vec3 \<Rightarrow> vec3 \<Rightarrow> real" where
  "dot a b = fadd (fadd (fmul (vx a) (vx b)) (fmul (vy a) (vy b))) (fmul (vz a) (vz b))"

definition cross :: "vec3 \<Rightarrow> vec3 \<Rightarrow> vec3" where
  "cross a b = Vec3 (fsub (fmul (vy a) (vz b)) (fmul (vz a) (vy b)))
                    (fsub (fmul (vz a) (vx b)) (fmul (vx a) (vz b)))
                    (fsub (fmul (vx a) (vy b)) (fmul (vy a) (vx b)))"

definition length_vec :: "vec3 \<Rightarrow> real" where
  "length_vec a =
     Math_sqrt (fadd (fadd (fmul (vx a) (vx a)) (fmul (vy a) (vy a))) (fmul (vz a) (vz a)))"

definition normalize_vec :: "vec3 \<Rightarrow> vec3" where
  "normalize_vec a =
     (let len = length_vec a in
      if len < EPSILON then Vec3 0 0 0 else scale a (fdiv 1 len))"

record plane =
  normal :: vec3
  plane_d :: real

text \<open>The constructor \<^verbatim>\<open>new Plane(normal, d)\<close> normalizes its first argument.\<close>

definition new_Plane :: "vec3 \<Rightarrow> real \<Rightarrow> plane" where
  "new_Plane n dd = \<lparr>normal = normalize_vec n, plane_d = dd\<rparr>"

definition fromPointAndNormal :: "vec3 \<Rightarrow> vec3 \<Rightarrow> plane" where
  "fromPointAndNormal point nrm =
     (let n = normalize_vec nrm; dd = - dot n point in new_Plane n dd)"

definition perpendicularBisector :: "vec3 \<Rightarrow> vec3 \<Rightarrow> plane" where
  "perpendicularBisector p1 p2 =
     (let midpoint = Vec3 (fdiv (fadd (vx p1) (vx p2)) 2)
                          (fdiv (fadd (vy p1) (vy p2)) 2)
                          (fdiv (fadd (vz p1) (vz p2)) 2);
          nrm = Vec3 (fsub (vx p2) (vx p1)) (fsub (vy p2) (vy p1)) (fsub (vz p2) (vz p1))
      in fromPointAndNormal midpoint nrm)"

definition signedDistance :: "plane \<Rightarrow> vec3 \<Rightarrow> real" where
  "signedDistance pl point = fadd (dot (normal pl) point) (plane_d pl)"

section \<open>ConvexPolyhedron\<close>

text \<open>
  A face is the array of its vertex indices. Reading an array beyond its end gives
  \<^verbatim>\<open>undefined\<close>: \<open>None\<close> below. A property access on \<^verbatim>\<open>undefined\<close> throws a
  \<^verbatim>\<open>TypeError\<close>. \<open>cutWithPlane\<close> throws nothing, but from a face index with no vertex
  it stores \<^verbatim>\<open>undefined\<close> in a rebuilt face; the record below has no such face, and the
  model then returns \<open>Inl UndefinedIndex\<close>.
\<close>

datatype error = TypeError | UndefinedIndex

record polyhedron =
  vertices :: "vec3 list"
  faces :: "nat list list"

definition createBox :: "real \<Rightarrow> real \<Rightarrow> real \<Rightarrow> real \<Rightarrow> real \<Rightarrow> real \<Rightarrow> polyhedron" where
  "createBox minX minY minZ maxX maxY maxZ =
     \<lparr>vertices = [Vec3 minX minY minZ, Vec3 maxX minY minZ, Vec3 maxX maxY minZ,
                  Vec3 minX maxY minZ, Vec3 minX minY maxZ, Vec3 maxX minY maxZ,
                  Vec3 maxX maxY maxZ, Vec3 minX maxY maxZ],
      faces = [[0, 3, 2, 1], [4, 5, 6, 7], [0, 1, 5, 4],
               [2, 3, 7, 6], [0, 4, 7, 3], [1, 2, 6, 5]]\<rparr>"

datatype side = INSIDE | ON | OUTSIDE

definition classify :: "real \<Rightarrow> side" where
  "classify dd = (if dd < - EPSILON then INSIDE else if EPSILON < dd then OUTSIDE else ON)"

definition distances :: "polyhedron \<Rightarrow> plane \<Rightarrow> real list" where
  "distances p pl = map (signedDistance pl) (vertices p)"

definition classifications :: "polyhedron \<Rightarrow> plane \<Rightarrow> side list" where
  "classifications p pl = map classify (distances p pl)"

definition hasOutside :: "polyhedron \<Rightarrow> plane \<Rightarrow> bool" where
  "hasOutside p pl = list_ex (\<lambda>c. c = OUTSIDE) (classifications p pl)"

definition hasInside :: "polyhedron \<Rightarrow> plane \<Rightarrow> bool" where
  "hasInside p pl = list_ex (\<lambda>c. c = INSIDE) (classifications p pl)"

text \<open>\<^verbatim>\<open>xs[i]\<close>\<close>

definition elem :: "'a list \<Rightarrow> nat \<Rightarrow> 'a option" where
  "elem xs i = (if i < length xs then Some (xs ! i) else None)"

text \<open>
  The key \<^verbatim>\<open>`${i}-${j}`\<close> with the smaller index first; the string determines the pair
  of indices, which is the key here.
\<close>

definition getEdgeKey :: "nat \<Rightarrow> nat \<Rightarrow> nat \<times> nat" where
  "getEdgeKey i j = (if i < j then (i, j) else (j, i))"

text \<open>
  The variables the face loop of \<open>cutWithPlane\<close> updates: \<^verbatim>\<open>newVertices\<close>,
  \<^verbatim>\<open>edgeIntersections\<close>, \<^verbatim>\<open>capEdges\<close> and \<^verbatim>\<open>newFaces\<close>.
\<close>

record cut_state =
  newVertices :: "vec3 list"
  edgeIntersections :: "nat \<times> nat \<Rightarrow> nat option"
  capEdges :: "(nat \<times> nat \<times> nat) list"
  newFaces :: "nat option list list"

definition intersection :: "vec3 list \<Rightarrow> real list \<Rightarrow> nat \<Rightarrow> nat \<Rightarrow> vec3" where
  "intersection vs ds i j =
     (let v1 = vs ! i; v2 = vs ! j; d1 = ds ! i; d2 = ds ! j;
          t = fdiv d1 (fsub d1 d2)
      in Vec3 (fadd (vx v1) (fmul t (fsub (vx v2) (vx v1))))
              (fadd (vy v1) (fmul t (fsub (vy v2) (vy v1))))
              (fadd (vz v1) (fmul t (fsub (vz v2) (vz v1)))))"

text \<open>It is called on the indices of an INSIDE and an OUTSIDE vertex only.\<close>

definition getOrCreateIntersection ::
  "vec3 list \<Rightarrow> real list \<Rightarrow> cut_state \<Rightarrow> nat \<Rightarrow> nat \<Rightarrow> nat \<times> cut_state" where
  "getOrCreateIntersection vs ds st i j =
     (let key = getEdgeKey i j in
      case edgeIntersections st key of
        Some k \<Rightarrow> (k, st)
      | None \<Rightarrow>
          (let newIndex = length (newVertices st) in
           (newIndex, st\<lparr>newVertices := newVertices st @ [intersection vs ds i j],
                          edgeIntersections := (edgeIntersections st)(key \<mapsto> newIndex)\<rparr>)))"

text \<open>
  The first loop: the vertices that are not OUTSIDE are copied, and \<^verbatim>\<open>vertexMap\<close>
  takes an old index to the new one.
\<close>

definition copy_step ::
  "vec3 list \<Rightarrow> side list \<Rightarrow> nat \<Rightarrow> (nat \<Rightarrow> nat option) \<times> vec3 list
     \<Rightarrow> (nat \<Rightarrow> nat option) \<times> vec3 list" where
  "copy_step vs cs i = (\<lambda>(vertexMap, nv).
     if cs ! i \<noteq> OUTSIDE then (vertexMap(i \<mapsto> length nv), nv @ [vs ! i])
     else (vertexMap, nv))"

definition copyInside :: "vec3 list \<Rightarrow> side list \<Rightarrow> (nat \<Rightarrow> nat option) \<times> vec3 list" where
  "copyInside vs cs = fold (copy_step vs cs) [0..<length vs] (Map.empty, [])"

text \<open>
  One round of the loop over \<^verbatim>\<open>i\<close> in a face. An ON vertex was copied, so
  \<^verbatim>\<open>vertexMap.get\<close> is defined in the two ON branches.
\<close>

definition edge_step ::
  "vec3 list \<Rightarrow> real list \<Rightarrow> side list \<Rightarrow> (nat \<Rightarrow> nat option) \<Rightarrow> nat list \<Rightarrow> nat
     \<Rightarrow> cut_state \<times> nat option list \<Rightarrow> cut_state \<times> nat option list" where
  "edge_step vs ds cs vertexMap face i = (\<lambda>(st, newFace).
     let curr = face ! i;
         next = face ! ((i + 1) mod length face);
         currClass = elem cs curr;
         nextClass = elem cs next;
         newFace1 = (if currClass \<noteq> Some OUTSIDE then newFace @ [vertexMap curr] else newFace)
     in if (currClass = Some INSIDE \<and> nextClass = Some OUTSIDE) \<or>
           (currClass = Some OUTSIDE \<and> nextClass = Some INSIDE) then
          (let (intersectionIndex, st1) = getOrCreateIntersection vs ds st curr next;
               capEdge = (if currClass = Some INSIDE then (intersectionIndex, curr, next)
                          else (intersectionIndex, next, curr))
           in (st1\<lparr>capEdges := capEdges st1 @ [capEdge]\<rparr>, newFace1 @ [Some intersectionIndex]))
        else if currClass = Some ON \<and> nextClass = Some OUTSIDE then
          (case vertexMap curr of
             Some k \<Rightarrow> (st\<lparr>capEdges := capEdges st @ [(k, curr, next)]\<rparr>, newFace1)
           | None \<Rightarrow> (st, newFace1))
        else if currClass = Some OUTSIDE \<and> nextClass = Some ON then
          (case vertexMap next of
             Some k \<Rightarrow> (st\<lparr>capEdges := capEdges st @ [(k, next, curr)]\<rparr>, newFace1)
           | None \<Rightarrow> (st, newFace1))
        else (st, newFace1))"

definition face_step ::
  "vec3 list \<Rightarrow> real list \<Rightarrow> side list \<Rightarrow> (nat \<Rightarrow> nat option) \<Rightarrow> nat list
     \<Rightarrow> cut_state \<Rightarrow> cut_state" where
  "face_step vs ds cs vertexMap face st =
     (let (st1, newFace) = fold (edge_step vs ds cs vertexMap face) [0..<length face] (st, [])
      in if 3 \<le> length newFace then st1\<lparr>newFaces := newFaces st1 @ [newFace]\<rparr> else st1)"

text \<open>
  \<open>buildCapFace\<close>, in three parts: the mean of the cap vertices, the angle of a cap
  vertex around it in the basis \<^verbatim>\<open>(tangent, bitangent)\<close> of the plane, and the sort.
\<close>

definition cap_center :: "vec3 list \<Rightarrow> nat list \<Rightarrow> vec3" where
  "cap_center vs capVertexIndices =
     (let sum = fold (\<lambda>idx c. Vec3 (fadd (vx c) (vx (vs ! idx)))
                                   (fadd (vy c) (vy (vs ! idx)))
                                   (fadd (vz c) (vz (vs ! idx))))
                     capVertexIndices (Vec3 0 0 0);
          n = of_nat (length capVertexIndices)
      in Vec3 (fdiv (vx sum) n) (fdiv (vy sum) n) (fdiv (vz sum) n))"

definition cap_angle :: "vec3 list \<Rightarrow> plane \<Rightarrow> vec3 \<Rightarrow> nat \<Rightarrow> real" where
  "cap_angle vs pl center a =
     (let nrm = scale (normal pl) (- 1);
          tangent = (if \<bar>vx nrm\<bar> < fl (9 / 10)
                     then normalize_vec (cross (Vec3 1 0 0) nrm)
                     else normalize_vec (cross (Vec3 0 1 0) nrm));
          bitangent = cross nrm tangent;
          va = sub_vec (vs ! a) center
      in Math_atan2 (dot va bitangent) (dot va tangent))"

definition buildCapFace ::
  "(nat \<times> nat \<times> nat) list \<Rightarrow> vec3 list \<Rightarrow> plane \<Rightarrow> nat list option" where
  "buildCapFace ces vs pl =
     (if length ces < 3 then None
      else
        let capVertexIndices = uniq (map fst ces) in
        if length capVertexIndices < 3 then None
        else
          let center = cap_center vs capVertexIndices
          in Some (sort_cmp (\<lambda>a b. fsub (cap_angle vs pl center a) (cap_angle vs pl center b))
                     capVertexIndices))"

text \<open>The rebuilt polyhedron, when no face of it holds \<^verbatim>\<open>undefined\<close>.\<close>

definition defined_face :: "nat option list \<Rightarrow> bool" where
  "defined_face f = list_all (\<lambda>k. k \<noteq> None) f"

definition rebuild :: "polyhedron \<Rightarrow> plane \<Rightarrow> cut_state" where
  "rebuild p pl =
     (let ds = distances p pl;
          cs = classifications p pl;
          (vertexMap, nv) = copyInside (vertices p) cs
      in fold (face_step (vertices p) ds cs vertexMap) (faces p)
           \<lparr>newVertices = nv, edgeIntersections = Map.empty, capEdges = [], newFaces = []\<rparr>)"

definition cutWithPlane :: "polyhedron \<Rightarrow> plane \<Rightarrow> error + polyhedron" where
  "cutWithPlane p pl =
     (if \<not> hasOutside p pl then Inr p
      else if \<not> hasInside p pl then Inr \<lparr>vertices = [], faces = []\<rparr>
      else
        let st = rebuild p pl;
            capFaces = (if 3 \<le> length (capEdges st) then
                          (case buildCapFace (capEdges st) (newVertices st) pl of
                             Some capFace \<Rightarrow> if 3 \<le> length capFace then [capFace] else []
                           | None \<Rightarrow> [])
                        else [])
        in if list_all defined_face (newFaces st)
           then Inr \<lparr>vertices = newVertices st,
                     faces = map (map the) (newFaces st) @ capFaces\<rparr>
           else Inl UndefinedIndex)"

definition getEdges :: "polyhedron \<Rightarrow> (nat \<times> nat) list" where
  "getEdges p =
     uniq (concat (map (\<lambda>face. map (\<lambda>i. let a = face ! i; b = face ! ((i + 1) mod length face)
                                         in if a < b then (a, b) else (b, a))
                                    [0..<length face])
                       (faces p)))"

text \<open>
  The triangles \<^verbatim>\<open>(face[0], face[i], face[i + 1])\<close> of a face of at least 3 indices,
  for \<^verbatim>\<open>i\<close> from 1 to \<^verbatim>\<open>face.length - 2\<close>.
\<close>

definition fan :: "nat list \<Rightarrow> (nat \<times> nat \<times> nat) list" where
  "fan face = map (\<lambda>i. (face ! 0, face ! i, face ! (i + 1))) [1..<length face - 1]"

definition tetra_step :: "vec3 list \<Rightarrow> nat \<times> nat \<times> nat \<Rightarrow> error + real \<Rightarrow> error + real" where
  "tetra_step vs = (\<lambda>(i0, i1, i2) acc.
     case acc of
       Inl e \<Rightarrow> Inl e
     | Inr volume \<Rightarrow>
         (case (elem vs i0, elem vs i1, elem vs i2) of
            (Some v0, Some v1, Some v2) \<Rightarrow> Inr (fadd volume (fdiv (dot v0 (cross v1 v2)) 6))
          | _ \<Rightarrow> Inl TypeError))"

definition getVolume :: "polyhedron \<Rightarrow> error + real" where
  "getVolume p =
     (if length (vertices p) < 4 \<or> length (faces p) < 4 then Inr 0
      else
        case fold (\<lambda>face acc. if length face < 3 then acc
                               else fold (tetra_step (vertices p)) (fan face) acc)
                  (faces p) (Inr 0) of
          Inl e \<Rightarrow> Inl e
        | Inr volume \<Rightarrow> Inr \<bar>volume\<bar>)"

definition getCentroid :: "polyhedron \<Rightarrow> vec3" where
  "getCentroid p =
     (if length (vertices p) = 0 then Vec3 0 0 0
      else
        let sum = fold (\<lambda>v s. Vec3 (fadd (vx s) (vx v)) (fadd (vy s) (vy v)) (fadd (vz s) (vz v)))
                       (vertices p) (Vec3 0 0 0);
            n = of_nat (length (vertices p))
        in Vec3 (fdiv (vx sum) n) (fdiv (vy sum) n) (fdiv (vz sum) n))"

section \<open>computeVoronoiCells\<close>

text \<open>
  A seed is an object with numeric \<^verbatim>\<open>x\<close>, \<^verbatim>\<open>y\<close>, \<^verbatim>\<open>z\<close>; \<^verbatim>\<open>s !== seed\<close> compares
  object identity, the field \<open>seed_ref\<close> here.
\<close>

record seed =
  seed_ref :: nat
  seed_x :: real
  seed_y :: real
  seed_z :: real

record bounds =
  bounds_min :: vec3
  bounds_max :: vec3

record cell =
  cell_seed :: seed
  cell_poly :: polyhedron

text \<open>\<^verbatim>\<open>Math.pow(a, 2)\<close> is taken as the rounded square of \<^verbatim>\<open>a\<close>.\<close>

definition seed_distance :: "seed \<Rightarrow> seed \<Rightarrow> real" where
  "seed_distance sd s =
     Math_sqrt (fadd (fadd (fmul (fsub (seed_x s) (seed_x sd)) (fsub (seed_x s) (seed_x sd)))
                           (fmul (fsub (seed_y s) (seed_y sd)) (fsub (seed_y s) (seed_y sd))))
                     (fmul (fsub (seed_z s) (seed_z sd)) (fsub (seed_z s) (seed_z sd))))"

definition otherSeeds :: "seed list \<Rightarrow> seed \<Rightarrow> (seed \<times> real) list" where
  "otherSeeds seeds sd =
     sort_cmp (\<lambda>a b. fsub (snd a) (snd b))
       (map (\<lambda>s. (s, seed_distance sd s)) (filter (\<lambda>s. seed_ref s \<noteq> seed_ref sd) seeds))"

text \<open>\<^verbatim>\<open>maxDist < -EPSILON\<close>, where \<^verbatim>\<open>maxDist\<close> may be \<^verbatim>\<open>-Infinity\<close>.\<close>

definition allInside :: "polyhedron \<Rightarrow> plane \<Rightarrow> bool" where
  "allInside c pl =
     (case Math_max (map (signedDistance pl) (vertices c)) of
        None \<Rightarrow> True
      | Some maxDist \<Rightarrow> maxDist < - EPSILON)"

fun cutLoop :: "vec3 \<Rightarrow> polyhedron \<Rightarrow> (seed \<times> real) list \<Rightarrow> error + polyhedron" where
  "cutLoop seedVec c [] = Inr c"
| "cutLoop seedVec c (other # rest) =
     (if length (vertices c) = 0 then Inr c
      else
        let otherVec = Vec3 (seed_x (fst other)) (seed_y (fst other)) (seed_z (fst other));
            bisector = perpendicularBisector seedVec otherVec
        in if allInside c bisector then cutLoop seedVec c rest
           else (case cutWithPlane c bisector of
                   Inl e \<Rightarrow> Inl e
                 | Inr c' \<Rightarrow> cutLoop seedVec c' rest))"

definition seedCell :: "seed list \<Rightarrow> bounds \<Rightarrow> seed \<Rightarrow> error + polyhedron" where
  "seedCell seeds expandedBounds sd =
     (let seedVec = Vec3 (seed_x sd) (seed_y sd) (seed_z sd);
          c = createBox (vx (bounds_min expandedBounds)) (vy (bounds_min expandedBounds))
                        (vz (bounds_min expandedBounds)) (vx (bounds_max expandedBounds))
                        (vy (bounds_max expandedBounds)) (vz (bounds_max expandedBounds))
      in cutLoop seedVec c (otherSeeds seeds sd))"

fun cellsLoop :: "seed list \<Rightarrow> bounds \<Rightarrow> seed list \<Rightarrow> cell list \<Rightarrow> error + cell list" where
  "cellsLoop seeds eb [] cells = Inr cells"
| "cellsLoop seeds eb (sd # rest) cells =
     (case seedCell seeds eb sd of
        Inl e \<Rightarrow> Inl e
      | Inr c \<Rightarrow>
          cellsLoop seeds eb rest
            (if 0 < length (vertices c) then cells @ [\<lparr>cell_seed = sd, cell_poly = c\<rparr>]
             else cells))"

definition computeVoronoiCells :: "seed list \<Rightarrow> bounds \<Rightarrow> real \<Rightarrow> error + cell list" where
  "computeVoronoiCells seeds bnds padding =
     (if length seeds = 0 then Inr []
      else
        let expandedBounds =
              \<lparr>bounds_min = Vec3 (fsub (vx (bounds_min bnds)) padding)
                                 (fsub (vy (bounds_min bnds)) padding)
                                 (fsub (vz (bounds_min bnds)) padding),
               bounds_max = Vec3 (fadd (vx (bounds_max bnds)) padding)
                                 (fadd (vy (bounds_max bnds)) padding)
                                 (fadd (vz (bounds_max bnds)) padding)\<rparr>
        in cellsLoop seeds expandedBounds seeds [])"

section \<open>cellToMeshData\<close>

text \<open>
  The center of an empty face is \<^verbatim>\<open>0 / 0\<close> in each coordinate, which is NaN: \<open>None\<close>.
\<close>

record faceDatum =
  fd_vertices :: "nat list"
  fd_center :: "vec3 option"

record meshData =
  mesh_vertices :: "real list"
  indices :: "nat list"
  edges :: "(nat \<times> nat) list"
  faceData :: "faceDatum list"
  vertexCount :: nat
  faceCount :: nat
  volume :: real
  centroid :: vec3

definition flatten :: "vec3 list \<Rightarrow> real list" where
  "flatten vs = concat (map (\<lambda>v. [vx v, vy v, vz v]) vs)"

definition triangulate :: "nat list list \<Rightarrow> nat list" where
  "triangulate fs =
     concat (map (\<lambda>face. if length face < 3 then []
                          else concat (map (\<lambda>(a, b, c). [a, b, c]) (fan face))) fs)"

definition center_step :: "vec3 list \<Rightarrow> nat \<Rightarrow> error + vec3 \<Rightarrow> error + vec3" where
  "center_step vs idx acc =
     (case acc of
        Inl e \<Rightarrow> Inl e
      | Inr c \<Rightarrow>
          (case elem vs idx of
             None \<Rightarrow> Inl TypeError
           | Some v \<Rightarrow> Inr (Vec3 (fadd (vx c) (vx v)) (fadd (vy c) (vy v)) (fadd (vz c) (vz v)))))"

definition faceCenter :: "vec3 list \<Rightarrow> nat list \<Rightarrow> error + faceDatum" where
  "faceCenter vs face =
     (case fold (center_step vs) face (Inr (Vec3 0 0 0)) of
        Inl e \<Rightarrow> Inl e
      | Inr c \<Rightarrow>
          Inr \<lparr>fd_vertices = face,
               fd_center = (if length face = 0 then None
                            else Some (Vec3 (fdiv (vx c) (of_nat (length face)))
                                            (fdiv (vy c) (of_nat (length face)))
                                            (fdiv (vz c) (of_nat (length face)))))\<rparr>)"

fun faceDataLoop :: "vec3 list \<Rightarrow> nat list list \<Rightarrow> error + faceDatum list" where
  "faceDataLoop vs [] = Inr []"
| "faceDataLoop vs (face # rest) =
     (case faceCenter vs face of
        Inl e \<Rightarrow> Inl e
      | Inr fd \<Rightarrow> (case faceDataLoop vs rest of Inl e \<Rightarrow> Inl e | Inr fds \<Rightarrow> Inr (fd # fds)))"

definition cellToMeshData :: "polyhedron \<Rightarrow> error + meshData" where
  "cellToMeshData c =
     (case faceDataLoop (vertices c) (faces c) of
        Inl e \<Rightarrow> Inl e
      | Inr fds \<Rightarrow>
          (case getVolume c of
             Inl e \<Rightarrow> Inl e
           | Inr vol \<Rightarrow>
               Inr \<lparr>mesh_vertices = flatten (vertices c),
                    indices = triangulate (faces c),
                    edges = getEdges c,
                    faceData = fds,
                    vertexCount = length (vertices c),
                    faceCount = length (faces c),
                    volume = vol,
                    centroid = getCentroid c\<rparr>))"

section \<open>The polyhedron invariant and the inputs of the examples\<close>

text \<open>
  The invariant of the data model: every face has at least 3 indices and every index of a
  face is an index of the vertex list.
\<close>

definition poly_inv :: "polyhedron \<Rightarrow> bool" where
  "poly_inv p = list_all (\<lambda>face. 3 \<le> length face \<and> list_all (\<lambda>i. i < length (vertices p)) face)
                         (faces p)"

text \<open>
  The rebuilt faces in closed form. \<open>straddle\<close>: one of two vertices is INSIDE and the
  other OUTSIDE. \<open>consecutive face\<close>: the pairs \<^verbatim>\<open>(face[i], face[(i + 1) % n])\<close> the
  face loop visits. \<open>emit\<close>: what one round of the loop appends to the new face, read off
  the final \<^verbatim>\<open>vertexMap\<close> and \<^verbatim>\<open>edgeIntersections\<close>. \<open>cut_inv\<close>: the invariant
  of the state of the loop.
\<close>

definition straddle :: "side list \<Rightarrow> nat \<Rightarrow> nat \<Rightarrow> bool" where
  "straddle cs a b \<longleftrightarrow>
     (elem cs a = Some INSIDE \<and> elem cs b = Some OUTSIDE) \<or>
     (elem cs a = Some OUTSIDE \<and> elem cs b = Some INSIDE)"

definition consecutive :: "nat list \<Rightarrow> (nat \<times> nat) list" where
  "consecutive face = map (\<lambda>i. (face ! i, face ! ((i + 1) mod length face))) [0..<length face]"

definition face_edges :: "polyhedron \<Rightarrow> (nat \<times> nat) list" where
  "face_edges p = concat (map consecutive (faces p))"

definition emit ::
  "(nat \<Rightarrow> nat option) \<Rightarrow> (nat \<times> nat \<Rightarrow> nat option) \<Rightarrow> side list \<Rightarrow> nat \<times> nat
     \<Rightarrow> nat option list" where
  "emit vertexMap cache cs = (\<lambda>(a, b).
     (if elem cs a \<noteq> Some OUTSIDE then [vertexMap a] else []) @
     (if straddle cs a b then [cache (getEdgeKey a b)] else []))"

definition rebuilt_face ::
  "(nat \<Rightarrow> nat option) \<Rightarrow> (nat \<times> nat \<Rightarrow> nat option) \<Rightarrow> side list \<Rightarrow> nat list
     \<Rightarrow> nat option list" where
  "rebuilt_face vertexMap cache cs face = concat (map (emit vertexMap cache cs) (consecutive face))"

text \<open>
  \<open>cap_entry\<close>: what one round of the loop appends to \<^verbatim>\<open>capEdges\<close>, read off the
  final \<^verbatim>\<open>vertexMap\<close> and \<^verbatim>\<open>edgeIntersections\<close>.
\<close>

definition cap_entry ::
  "(nat \<Rightarrow> nat option) \<Rightarrow> (nat \<times> nat \<Rightarrow> nat option) \<Rightarrow> side list \<Rightarrow> nat \<times> nat
     \<Rightarrow> (nat \<times> nat \<times> nat) list" where
  "cap_entry vertexMap cache cs = (\<lambda>(a, b).
     if straddle cs a b then
       (case cache (getEdgeKey a b) of
          Some k \<Rightarrow> [if elem cs a = Some INSIDE then (k, a, b) else (k, b, a)]
        | None \<Rightarrow> [])
     else if elem cs a = Some ON \<and> elem cs b = Some OUTSIDE then
       (case vertexMap a of Some k \<Rightarrow> [(k, a, b)] | None \<Rightarrow> [])
     else if elem cs a = Some OUTSIDE \<and> elem cs b = Some ON then
       (case vertexMap b of Some k \<Rightarrow> [(k, b, a)] | None \<Rightarrow> [])
     else [])"

definition cut_inv :: "polyhedron \<Rightarrow> plane \<Rightarrow> cut_state \<Rightarrow> bool" where
  "cut_inv p pl st \<longleftrightarrow>
     (let vs = vertices p; ds = distances p pl; cs = classifications p pl;
          n0 = length (snd (copyInside vs cs));
          C = edgeIntersections st; nv = newVertices st
      in inj_on (\<lambda>key. the (C key)) (dom C) \<and>
         (\<lambda>key. the (C key)) ` dom C = {n0..<length nv} \<and>
         (\<forall>key \<in> dom C. \<exists>ab \<in> set (face_edges p).
             key = getEdgeKey (fst ab) (snd ab) \<and> straddle cs (fst ab) (snd ab) \<and>
             nv ! the (C key) = intersection vs ds (fst ab) (snd ab)) \<and>
         take n0 nv = snd (copyInside vs cs) \<and> n0 \<le> length nv \<and>
         (\<forall>e \<in> set (capEdges st). fst e < length nv))"

definition unitBox :: polyhedron where
  "unitBox = createBox (- (1 / 2)) (- (1 / 2)) (- (1 / 2)) (1 / 2) (1 / 2) (1 / 2)"

text \<open>
  The plane through the origin with normal \<open>(1, 1, 0)\<close>; it contains two opposite
  vertical edges of the unit box.
\<close>

definition diagonalPlane :: plane where
  "diagonalPlane = fromPointAndNormal (Vec3 0 0 0) (Vec3 1 1 0)"

text \<open>The half of the unit box behind the plane \<open>x = 0\<close>, as \<open>cutWithPlane\<close> builds it.\<close>

definition halfBox :: polyhedron where
  "halfBox =
     \<lparr>vertices = [Vec3 (- (1 / 2)) (- (1 / 2)) (- (1 / 2)), Vec3 (- (1 / 2)) (1 / 2) (- (1 / 2)),
                  Vec3 (- (1 / 2)) (- (1 / 2)) (1 / 2), Vec3 (- (1 / 2)) (1 / 2) (1 / 2),
                  Vec3 0 (1 / 2) (- (1 / 2)), Vec3 0 (- (1 / 2)) (- (1 / 2)),
                  Vec3 0 (- (1 / 2)) (1 / 2), Vec3 0 (1 / 2) (1 / 2)],
      faces = [[0, 1, 4, 5], [2, 6, 7, 3], [0, 5, 6, 2], [4, 1, 3, 7], [0, 2, 3, 1],
               [5, 6, 7, 4]]\<rparr>"

text \<open>
  Two seeds in the box \<open>[-2, 2]\<^sup>3\<close>, that box, and the two cells \<open>computeVoronoiCells\<close>
  builds from them.
\<close>

definition seedA :: seed where
  "seedA = \<lparr>seed_ref = 0, seed_x = - 1, seed_y = 0, seed_z = 0\<rparr>"

definition seedB :: seed where
  "seedB = \<lparr>seed_ref = 1, seed_x = 1, seed_y = 0, seed_z = 0\<rparr>"

definition box4 :: polyhedron where
  "box4 = createBox (- 2) (- 2) (- 2) 2 2 2"

definition cellA :: polyhedron where
  "cellA =
     \<lparr>vertices = [Vec3 (- 2) (- 2) (- 2), Vec3 (- 2) 2 (- 2), Vec3 (- 2) (- 2) 2, Vec3 (- 2) 2 2,
                  Vec3 0 2 (- 2), Vec3 0 (- 2) (- 2), Vec3 0 (- 2) 2, Vec3 0 2 2],
      faces = [[0, 1, 4, 5], [2, 6, 7, 3], [0, 5, 6, 2], [4, 1, 3, 7], [0, 2, 3, 1],
               [5, 6, 7, 4]]\<rparr>"

definition cellB :: polyhedron where
  "cellB =
     \<lparr>vertices = [Vec3 2 (- 2) (- 2), Vec3 2 2 (- 2), Vec3 2 (- 2) 2, Vec3 2 2 2,
                  Vec3 0 2 (- 2), Vec3 0 (- 2) (- 2), Vec3 0 (- 2) 2, Vec3 0 2 2],
      faces = [[4, 1, 0, 5], [6, 2, 3, 7], [5, 0, 2, 6], [1, 4, 7, 3], [0, 1, 3, 2],
               [6, 5, 4, 7]]\<rparr>"

text \<open>
  A box that is wide along \<open>x\<close>, what \<open>cutWithPlane\<close> makes of it at the plane
  \<open>x = 0\<close>, and what a second cut at the same plane makes of that.
\<close>

definition wideBox :: polyhedron where
  "wideBox = createBox (- 900000) (- 1) (- 1) 500000 1 1"

definition wideCut :: polyhedron where
  "wideCut =
     \<lparr>vertices = [Vec3 (- 900000) (- 1) (- 1), Vec3 (- 900000) 1 (- 1), Vec3 (- 900000) (- 1) 1,
                  Vec3 (- 900000) 1 1, Vec3 (1 / 2 ^ 33) 1 (- 1), Vec3 0 (- 1) (- 1),
                  Vec3 (1 / 2 ^ 33) (- 1) 1, Vec3 0 1 1],
      faces = [[0, 1, 4, 5], [2, 6, 7, 3], [0, 5, 6, 2], [4, 1, 3, 7], [0, 2, 3, 1],
               [5, 6, 7, 4]]\<rparr>"

definition wideCutAgain :: polyhedron where
  "wideCutAgain =
     \<lparr>vertices = [Vec3 (- 900000) (- 1) (- 1), Vec3 (- 900000) 1 (- 1), Vec3 (- 900000) (- 1) 1,
                  Vec3 (- 900000) 1 1, Vec3 0 (- 1) (- 1), Vec3 0 1 1, Vec3 0 1 (- 1),
                  Vec3 0 (- 1) 1],
      faces = [[0, 1, 6, 4], [2, 7, 5, 3], [0, 4, 7, 2], [6, 1, 3, 5], [0, 2, 3, 1],
               [4, 7, 5, 6]]\<rparr>"

section \<open>Computing the rounding\<close>

lemma numlen_upper_nat: "(numeral n :: nat) < 2 ^ numlen n"
proof (induction n)
  case One
  show ?case by simp
next
  case (Bit0 n)
  have "(numeral (num.Bit0 n) :: nat) = 2 * numeral n"
    by (rule numeral_Bit0_eq_double)
  moreover have "(2::nat) ^ numlen (num.Bit0 n) = 2 * 2 ^ numlen n"
    by simp
  ultimately show ?case using Bit0 by linarith
next
  case (Bit1 n)
  have "(numeral (num.Bit1 n) :: nat) = 2 * numeral n + 1"
    by (rule numeral_Bit1_eq_inc_double)
  moreover have "(2::nat) ^ numlen (num.Bit1 n) = 2 * 2 ^ numlen n"
    by simp
  ultimately show ?case using Bit1 by linarith
qed

lemma numlen_upper: "(numeral n :: real) < 2 ^ numlen n"
proof -
  have "real (numeral n) < real (2 ^ numlen n)"
    using numlen_upper_nat[of n] by (rule iffD2[OF of_nat_less_iff])
  then show ?thesis by simp
qed

lemma numlen_lower: "(2::real) ^ numlen n \<le> 2 * numeral n"
proof (induction n)
  case One
  show ?case by simp
next
  case (Bit0 n)
  have "(numeral (num.Bit0 n) :: real) = 2 * numeral n"
    by (rule numeral_Bit0_eq_double)
  moreover have "(2::real) ^ numlen (num.Bit0 n) = 2 * 2 ^ numlen n"
    by simp
  ultimately show ?case using Bit0 by linarith
next
  case (Bit1 n)
  have "(numeral (num.Bit1 n) :: real) = 2 * numeral n + 1"
    by (rule numeral_Bit1_eq_inc_double)
  moreover have "(2::real) ^ numlen (num.Bit1 n) = 2 * 2 ^ numlen n"
    by simp
  ultimately show ?case using Bit1 by linarith
qed

lemma ulp_exp_eq:
  assumes "2 powi (e + 52) \<le> \<bar>v\<bar>" "\<bar>v\<bar> < 2 powi (e + 53)"
  shows "ulp_exp v = e"
proof -
  have pos: "0 < \<bar>v\<bar>"
    using assms(1) by (smt (verit) zero_less_power_int)
  have a: "(2::real) powr of_int (e + 52) = 2 powi (e + 52)"
    by (rule powr_real_of_int') simp_all
  have b: "(2::real) powr (of_int (e + 52) + 1) = 2 powi (e + 53)"
    using powr_real_of_int'[of "2::real" "e + 53"] by (simp add: add.commute)
  have "\<lfloor>log 2 \<bar>v\<bar>\<rfloor> = e + 52"
    using assms pos a b
    by (subst floor_log_eq_powr_iff) simp_all
  then show ?thesis by (simp add: ulp_exp_def)
qed

lemma fl_eval:
  assumes "2 powi (e + 52) \<le> \<bar>v\<bar>" "\<bar>v\<bar> < 2 powi (e + 53)"
  shows "fl v = of_int (rhe (v / 2 powi e)) * 2 powi e"
proof -
  have "v \<noteq> 0" using assms(1) by (smt (verit) zero_less_power_int)
  then show ?thesis by (simp add: fl_def ulp_exp_eq[OF assms])
qed


lemma rhe_uminus: "rhe (- t) = - rhe t"
proof (cases "t \<in> \<int>")
  case True
  then obtain k where "t = of_int k" by (auto elim: Ints_cases)
  then show ?thesis by (simp add: rhe_def)
next
  case False
  then have "t \<noteq> of_int \<lfloor>t\<rfloor>" by (metis Ints_of_int)
  then have "\<lceil>t\<rceil> = \<lfloor>t\<rfloor> + 1" by (simp add: ceiling_altdef)
  moreover have "\<lfloor>- t\<rfloor> = - \<lceil>t\<rceil>" by (simp add: ceiling_def)
  ultimately have f: "\<lfloor>- t\<rfloor> = - \<lfloor>t\<rfloor> - 1" by simp
  show ?thesis unfolding rhe_def Let_def f
    by (auto simp: algebra_simps)
qed

lemma fl_uminus: "fl (- v) = - fl v"
proof -
  have "ulp_exp (- v) = ulp_exp v" by (simp add: ulp_exp_def)
  then show ?thesis
    by (simp add: fl_def rhe_uminus)
qed

lemma fl_zero: "fl 0 = 0"
  by (simp add: fl_def)


lemma ilen_numlen: "ilen n = int (numlen n)"
  by (induction n) simp_all

lemma fl_pos_eval:
  assumes "2 powi (k - 1) \<le> v" "v < 2 powi (k + 1)"
  shows "fl v = fl_at ((if 2 powi k \<le> v then k else k - 1) - 52) v"
proof -
  have pos: "0 < v" using assms(1) by (smt (verit) zero_less_power_int)
  show ?thesis
  proof (cases "2 powi k \<le> v")
    case True
    have e: "k - 52 + 52 = k" "k - 52 + 53 = k + 1" by simp_all
    have "fl v = of_int (rhe (v / 2 powi (k - 52))) * 2 powi (k - 52)"
      using fl_eval[of "k - 52" v] True assms(2) pos unfolding e by simp
    with True show ?thesis by (simp add: fl_at_def)
  next
    case False
    have e: "k - 1 - 52 + 52 = k - 1" "k - 1 - 52 + 53 = k" by simp_all
    have "fl v = of_int (rhe (v / 2 powi (k - 1 - 52))) * 2 powi (k - 1 - 52)"
      using fl_eval[of "k - 1 - 52" v] False assms(1) pos unfolding e by simp
    with False show ?thesis by (simp add: fl_at_def)
  qed
qed

lemma numeral_powi_bounds:
  "2 powi (ilen n - 1) \<le> (numeral n :: real)" "(numeral n :: real) < 2 powi (ilen n)"
proof -
  have "1 \<le> numlen n" by (cases n) simp_all
  then have "(2::real) ^ numlen n = 2 * 2 ^ (numlen n - 1)"
    by (metis le_add_diff_inverse power_add power_one_right)
  then have "(2::real) ^ (numlen n - 1) \<le> numeral n"
    using numlen_lower[of n] by linarith
  moreover have "(2::real) powi (ilen n - 1) = 2 ^ (numlen n - 1)"
    using \<open>1 \<le> numlen n\<close> by (simp add: ilen_numlen power_int_def nat_diff_distrib')
  ultimately show "2 powi (ilen n - 1) \<le> (numeral n :: real)" by simp
  show "(numeral n :: real) < 2 powi (ilen n)"
    using numlen_upper[of n] by (simp add: ilen_numlen)
qed

lemma fl_numeral: "fl (numeral a) = fl_at (ilen a - 53) (numeral a)"
proof -
  have e: "ilen a - 53 + 52 = ilen a - 1" "ilen a - 53 + 53 = ilen a" by simp_all
  have "fl (numeral a) = of_int (rhe (numeral a / 2 powi (ilen a - 53))) * 2 powi (ilen a - 53)"
    using fl_eval[of "ilen a - 53" "numeral a"] numeral_powi_bounds[of a] unfolding e by simp
  then show ?thesis by (simp add: fl_at_def)
qed

lemma fl_one: "fl 1 = 1"
  using fl_eval[of "-52" 1] by (simp add: rhe_def)

lemma div_powi_bounds:
  fixes u w :: real
  assumes "2 powi (p - 1) \<le> u" "u < 2 powi p" "2 powi (q - 1) \<le> w" "w < 2 powi q"
  shows "2 powi (p - q - 1) \<le> u / w" "u / w < 2 powi (p - q + 1)"
proof -
  have wpos: "0 < w" using assms(3) by (smt (verit) zero_less_power_int)
  have upos: "0 < u" using assms(1) by (smt (verit) zero_less_power_int)
  have "(2::real) powi (p - q - 1) = 2 powi (p - 1) / 2 powi q"
    by (simp add: power_int_diff)
  also have "\<dots> \<le> u / 2 powi q"
    using assms(1) by (simp add: divide_right_mono)
  also have "\<dots> \<le> u / w"
    using assms(4) upos wpos by (simp add: frac_le)
  finally show "2 powi (p - q - 1) \<le> u / w" .
  have "u / w < 2 powi p / w"
    using assms(2) wpos by (simp add: divide_strict_right_mono)
  also have "\<dots> \<le> 2 powi p / 2 powi (q - 1)"
    using assms(3) by (simp add: frac_le)
  also have "\<dots> = 2 powi (p - q + 1)"
    by (simp add: power_int_diff power_int_add)
  finally show "u / w < 2 powi (p - q + 1)" .
qed

lemma fl_div_numeral:
  "fl (numeral a / numeral b) =
     fl_at ((if 2 powi (ilen a - ilen b) \<le> (numeral a / numeral b :: real)
             then ilen a - ilen b else ilen a - ilen b - 1) - 52) (numeral a / numeral b)"
  by (rule fl_pos_eval)
     (rule div_powi_bounds[OF numeral_powi_bounds[of a] numeral_powi_bounds[of b]])+

lemma fl_inverse_numeral:
  "fl (1 / numeral b) =
     fl_at ((if 2 powi (1 - ilen b) \<le> (1 / numeral b :: real)
             then 1 - ilen b else 1 - ilen b - 1) - 52) (1 / numeral b)"
  using fl_div_numeral[of num.One b] by simp

lemmas fl_literal = fl_zero fl_one fl_uminus fl_numeral fl_div_numeral fl_inverse_numeral

lemmas fl_at_eval = fl_at_def rhe_def

section \<open>Evaluation of the arithmetic on literals\<close>

lemmas js_arith = fadd_def fsub_def fmul_def fdiv_def Math_sqrt_def fl_literal fl_at_eval

lemmas vec_ops = sub_vec_def scale_def dot_def cross_def length_vec_def normalize_vec_def

lemma EPSILON_val: "EPSILON = 7737125245533627 / 77371252455336267181195264"
  by (simp add: EPSILON_def js_arith)

lemma EPSILON_pos: "0 < EPSILON"
  by (simp add: EPSILON_val)

lemma planeX:
  "new_Plane (Vec3 1 0 0) dd = \<lparr>normal = Vec3 1 0 0, plane_d = dd\<rparr>"
  by (simp add: new_Plane_def vec_ops js_arith EPSILON_val)

lemma unitBox_vertices:
  "vertices unitBox =
     [Vec3 (- (1 / 2)) (- (1 / 2)) (- (1 / 2)), Vec3 (1 / 2) (- (1 / 2)) (- (1 / 2)),
      Vec3 (1 / 2) (1 / 2) (- (1 / 2)), Vec3 (- (1 / 2)) (1 / 2) (- (1 / 2)),
      Vec3 (- (1 / 2)) (- (1 / 2)) (1 / 2), Vec3 (1 / 2) (- (1 / 2)) (1 / 2),
      Vec3 (1 / 2) (1 / 2) (1 / 2), Vec3 (- (1 / 2)) (1 / 2) (1 / 2)]"
  by (simp add: unitBox_def createBox_def)

lemma unitBox_faces:
  "faces unitBox = [[0, 3, 2, 1], [4, 5, 6, 7], [0, 1, 5, 4],
                    [2, 3, 7, 6], [0, 4, 7, 3], [1, 2, 6, 5]]"
  by (simp add: unitBox_def createBox_def)

lemma unitBox_distances:
  "map (signedDistance \<lparr>normal = Vec3 1 0 0, plane_d = dd\<rparr>) (vertices unitBox) =
     [fl (- (1 / 2) + dd), fl (1 / 2 + dd), fl (1 / 2 + dd), fl (- (1 / 2) + dd),
      fl (- (1 / 2) + dd), fl (1 / 2 + dd), fl (1 / 2 + dd), fl (- (1 / 2) + dd)]"
  by (simp add: unitBox_vertices signedDistance_def vec_ops js_arith)

section \<open>The early exits of cutWithPlane\<close>

lemma classify_OUTSIDE:
  "classify dd = OUTSIDE \<longleftrightarrow> EPSILON < dd" "OUTSIDE = classify dd \<longleftrightarrow> EPSILON < dd"
  using EPSILON_pos by (auto simp: classify_def)

lemma classify_INSIDE:
  "classify dd = INSIDE \<longleftrightarrow> dd < - EPSILON" "INSIDE = classify dd \<longleftrightarrow> dd < - EPSILON"
  by (auto simp: classify_def)

lemma hasOutside_iff:
  "hasOutside p pl \<longleftrightarrow> (\<exists>v \<in> set (vertices p). EPSILON < signedDistance pl v)"
  by (auto simp: hasOutside_def classifications_def distances_def list_ex_iff classify_OUTSIDE)

lemma hasInside_iff:
  "hasInside p pl \<longleftrightarrow> (\<exists>v \<in> set (vertices p). signedDistance pl v < - EPSILON)"
  by (auto simp: hasInside_def classifications_def distances_def list_ex_iff classify_INSIDE)

lemma Math_max_None: "Math_max ds = None \<longleftrightarrow> ds = []"
  by (cases ds) (auto split: option.splits)

lemma Math_max_less: "Math_max ds = Some m \<Longrightarrow> m < b \<longleftrightarrow> (\<forall>a \<in> set ds. a < b)"
proof (induction ds arbitrary: m)
  case Nil
  then show ?case by simp
next
  case (Cons a ds)
  then show ?case
    by (cases "Math_max ds") (auto simp: Math_max_None)
qed

lemma allInside_iff:
  "allInside c pl \<longleftrightarrow> (\<forall>v \<in> set (vertices c). signedDistance pl v < - EPSILON)"
  by (auto simp: allInside_def Math_max_None Math_max_less split: option.splits)

text \<open>
  C3. When at least one vertex has a signed distance above \<open>EPSILON\<close> and no vertex has
  one below \<open>- EPSILON\<close>, \<open>cutWithPlane\<close> leaves no vertex and no face.
\<close>

theorem cutWithPlane_excluded:
  assumes "\<exists>v \<in> set (vertices p). EPSILON < signedDistance pl v"
    and "\<forall>v \<in> set (vertices p). \<not> signedDistance pl v < - EPSILON"
  shows "cutWithPlane p pl = Inr \<lparr>vertices = [], faces = []\<rparr>"
  using assms by (simp add: cutWithPlane_def hasOutside_iff hasInside_iff)

theorem cutWithPlane_excluded_witness:
  "(\<exists>v \<in> set (vertices unitBox). EPSILON < signedDistance (new_Plane (Vec3 1 0 0) 1) v) \<and>
   \<not> (\<exists>v \<in> set (vertices unitBox). signedDistance (new_Plane (Vec3 1 0 0) 1) v < - EPSILON) \<and>
   cutWithPlane unitBox (new_Plane (Vec3 1 0 0) 1) = Inr \<lparr>vertices = [], faces = []\<rparr>"
proof -
  have "\<exists>dd \<in> set (map (signedDistance (new_Plane (Vec3 1 0 0) 1)) (vertices unitBox)).
          EPSILON < dd"
    unfolding planeX unitBox_distances by (simp add: js_arith EPSILON_val)
  then have h1: "\<exists>v \<in> set (vertices unitBox).
                   EPSILON < signedDistance (new_Plane (Vec3 1 0 0) 1) v"
    by simp
  have "\<forall>dd \<in> set (map (signedDistance (new_Plane (Vec3 1 0 0) 1)) (vertices unitBox)).
          \<not> dd < - EPSILON"
    unfolding planeX unitBox_distances by (simp add: js_arith EPSILON_val)
  then have h2: "\<forall>v \<in> set (vertices unitBox).
                   \<not> signedDistance (new_Plane (Vec3 1 0 0) 1) v < - EPSILON"
    by simp
  show ?thesis
    using h1 h2 cutWithPlane_excluded[OF h1 h2] by blast
qed

lemma allInside_noop:
  assumes "allInside c pl"
  shows "cutWithPlane c pl = Inr c"
proof -
  have "\<not> hasOutside c pl"
    using assms EPSILON_pos by (fastforce simp: allInside_iff hasOutside_iff)
  then show ?thesis by (simp add: cutWithPlane_def)
qed

text \<open>
  C5. When the maximum of the signed distances of the vertices of a cell to a plane is
  below \<open>- EPSILON\<close>, which is the test of the early \<^verbatim>\<open>continue\<close> of
  \<open>computeVoronoiCells\<close>, the call of \<open>cutWithPlane\<close> that is skipped would have left the
  vertex list and the face list of the cell as they are. So a round of the loop over the
  other seeds is what it would be without the early \<^verbatim>\<open>continue\<close>.
\<close>

theorem early_continue_is_noop:
  "(allInside c pl \<longrightarrow> cutWithPlane c pl = Inr c) \<and>
   cutLoop seedVec c (other # rest) =
     (if length (vertices c) = 0 then Inr c
      else case cutWithPlane c
                  (perpendicularBisector seedVec
                     (Vec3 (seed_x (fst other)) (seed_y (fst other)) (seed_z (fst other)))) of
             Inl e \<Rightarrow> Inl e
           | Inr c' \<Rightarrow> cutLoop seedVec c' rest)"
  by (simp add: allInside_noop Let_def)

theorem early_continue_is_noop_witness:
  "allInside unitBox (new_Plane (Vec3 1 0 0) (- 1)) \<and>
   cutWithPlane unitBox (new_Plane (Vec3 1 0 0) (- 1)) = Inr unitBox"
proof -
  have h: "allInside unitBox (new_Plane (Vec3 1 0 0) (- 1))"
    unfolding allInside_def planeX unitBox_distances
    by (simp add: js_arith EPSILON_val)
  from early_continue_is_noop[of unitBox "new_Plane (Vec3 1 0 0) (- 1)"]
  have "allInside unitBox (new_Plane (Vec3 1 0 0) (- 1)) \<longrightarrow>
          cutWithPlane unitBox (new_Plane (Vec3 1 0 0) (- 1)) = Inr unitBox"
    by (rule conjunct1)
  then show ?thesis using h by simp
qed

section \<open>Properties of the empty cases\<close>

text \<open>
  C9. With no seed, \<open>computeVoronoiCells\<close> returns the empty list of cells, for every
  bounding box and every padding.
\<close>

theorem computeVoronoiCells_no_seeds: "computeVoronoiCells [] bnds padding = Inr []"
  by (simp add: computeVoronoiCells_def)

text \<open>
  C10. On the polyhedron with no vertex and no face \<open>cellToMeshData\<close> returns, without
  an error and without a NaN: volume 0, centroid \<open>(0, 0, 0)\<close>, and empty vertex, index,
  edge and face-data arrays. \<open>getVolume\<close> is 0 on every polyhedron of fewer than 4
  vertices or fewer than 4 faces, and \<open>getCentroid\<close> is the zero vector on every
  polyhedron without vertices, where it does not divide.
\<close>

theorem cellToMeshData_empty:
  "cellToMeshData \<lparr>vertices = [], faces = []\<rparr> =
     Inr \<lparr>mesh_vertices = [], indices = [], edges = [], faceData = [], vertexCount = 0,
          faceCount = 0, volume = 0, centroid = Vec3 0 0 0\<rparr> \<and>
   (\<forall>p. length (vertices p) < 4 \<or> length (faces p) < 4 \<longrightarrow> getVolume p = Inr 0) \<and>
   (\<forall>p. vertices p = [] \<longrightarrow> getCentroid p = Vec3 0 0 0)"
  by (simp add: cellToMeshData_def getVolume_def getCentroid_def flatten_def triangulate_def
      getEdges_def)

theorem cellToMeshData_empty_witness:
  "length (vertices \<lparr>vertices = [Vec3 1 2 3], faces = [[0, 0, 0]]\<rparr>) < 4 \<and>
   getVolume \<lparr>vertices = [Vec3 1 2 3], faces = [[0, 0, 0]]\<rparr> = Inr 0 \<and>
   vertices \<lparr>vertices = [], faces = [[]]\<rparr> = [] \<and>
   getCentroid \<lparr>vertices = [], faces = [[]]\<rparr> = Vec3 0 0 0"
proof -
  have h1: "length (vertices \<lparr>vertices = [Vec3 1 2 3], faces = [[0, 0, 0]]\<rparr>) < 4"
    by simp
  have h2: "vertices \<lparr>vertices = [], faces = [[]]\<rparr> = []"
    by simp
  from cellToMeshData_empty
  have a: "\<And>p. length (vertices p) < 4 \<or> length (faces p) < 4 \<Longrightarrow> getVolume p = Inr 0"
    and b: "\<And>p. vertices p = [] \<Longrightarrow> getCentroid p = Vec3 0 0 0"
    by blast+
  show ?thesis
    using h1 h2 a[OF disjI1, OF h1] b[OF h2] by blast
qed

section \<open>The rebuilt polyhedron\<close>

lemma goc_cases:
  assumes "getOrCreateIntersection vs ds st a b = (k, st')"
  shows "(edgeIntersections st (getEdgeKey a b) = Some k \<and> st' = st) \<or>
         (edgeIntersections st (getEdgeKey a b) = None \<and> k = length (newVertices st) \<and>
          st' = st\<lparr>newVertices := newVertices st @ [intersection vs ds a b],
                    edgeIntersections :=
                      (edgeIntersections st)(getEdgeKey a b \<mapsto> length (newVertices st))\<rparr>)"
  using assms by (auto simp: getOrCreateIntersection_def Let_def split: option.splits)

subsection \<open>The vertex copy\<close>

lemma copy_fold:
  assumes "fold (copy_step vs cs) [0..<n] (Map.empty, []) = (vm, nv)"
  shows "(\<forall>i k. vm i = Some k \<longrightarrow> k < length nv \<and> i < n \<and> cs ! i \<noteq> OUTSIDE) \<and>
         (\<forall>i < n. cs ! i \<noteq> OUTSIDE \<longrightarrow> vm i \<noteq> None)"
  using assms
proof (induction n arbitrary: vm nv)
  case 0
  then show ?case by auto
next
  case (Suc n)
  obtain vm0 nv0 where f: "fold (copy_step vs cs) [0..<n] (Map.empty, []) = (vm0, nv0)"
    by (cases "fold (copy_step vs cs) [0..<n] (Map.empty, [])") auto
  note ih = Suc.IH[OF f]
  from Suc.prems f have s: "copy_step vs cs n (vm0, nv0) = (vm, nv)"
    by simp
  show ?case
  proof (cases "cs ! n \<noteq> OUTSIDE")
    case True
    with s have e: "vm = vm0(n \<mapsto> length nv0)" "nv = nv0 @ [vs ! n]"
      by (auto simp: copy_step_def)
    show ?thesis
      using ih True unfolding e
      by (auto simp: less_Suc_eq)
  next
    case False
    with s have e: "vm = vm0" "nv = nv0"
      by (auto simp: copy_step_def)
    show ?thesis
      using ih False unfolding e
      by (auto simp: less_Suc_eq)
  qed
qed

lemma copyInside_Some:
  assumes "copyInside vs cs = (vm, nv)" "vm i = Some k"
  shows "k < length nv" "i < length vs" "cs ! i \<noteq> OUTSIDE"
  using copy_fold[OF assms(1)[unfolded copyInside_def]] assms(2) by blast+

lemma copyInside_defined:
  assumes "copyInside vs cs = (vm, nv)" "i < length vs" "cs ! i \<noteq> OUTSIDE"
  shows "vm i \<noteq> None"
  using copy_fold[OF assms(1)[unfolded copyInside_def]] assms(2,3) by blast


subsection \<open>One round of the face loop\<close>

lemma edge_step_straddle:
  assumes "straddle cs (face ! i) (face ! ((i + 1) mod length face))"
    and "getOrCreateIntersection vs ds st (face ! i) (face ! ((i + 1) mod length face)) = (k, st1)"
  shows "edge_step vs ds cs vm face i (st, nf) =
           (st1\<lparr>capEdges := capEdges st1 @
                   [if elem cs (face ! i) = Some INSIDE
                    then (k, face ! i, face ! ((i + 1) mod length face))
                    else (k, face ! ((i + 1) mod length face), face ! i)]\<rparr>,
            nf @ emit vm (edgeIntersections st1) cs (face ! i, face ! ((i + 1) mod length face)))"
proof -
  have c: "edgeIntersections st1 (getEdgeKey (face ! i) (face ! ((i + 1) mod length face))) = Some k"
    using goc_cases[OF assms(2)] by auto
  show ?thesis
    using assms c
    by (auto simp: edge_step_def Let_def emit_def straddle_def)
qed

lemma edge_step_on_outside:
  assumes "elem cs (face ! i) = Some ON" "elem cs (face ! ((i + 1) mod length face)) = Some OUTSIDE"
  shows "edge_step vs ds cs vm face i (st, nf) =
           ((case vm (face ! i) of
               Some k \<Rightarrow> st\<lparr>capEdges := capEdges st @
                               [(k, face ! i, face ! ((i + 1) mod length face))]\<rparr>
             | None \<Rightarrow> st),
            nf @ emit vm (edgeIntersections st) cs (face ! i, face ! ((i + 1) mod length face)))"
  using assms
  by (auto simp: edge_step_def Let_def emit_def straddle_def split: option.splits)

lemma edge_step_outside_on:
  assumes "elem cs (face ! i) = Some OUTSIDE" "elem cs (face ! ((i + 1) mod length face)) = Some ON"
  shows "edge_step vs ds cs vm face i (st, nf) =
           ((case vm (face ! ((i + 1) mod length face)) of
               Some k \<Rightarrow> st\<lparr>capEdges := capEdges st @
                               [(k, face ! ((i + 1) mod length face), face ! i)]\<rparr>
             | None \<Rightarrow> st),
            nf @ emit vm (edgeIntersections st) cs (face ! i, face ! ((i + 1) mod length face)))"
  using assms
  by (auto simp: edge_step_def Let_def emit_def straddle_def split: option.splits)

lemma edge_step_other:
  assumes "\<not> straddle cs (face ! i) (face ! ((i + 1) mod length face))"
    and "\<not> (elem cs (face ! i) = Some ON \<and>
            elem cs (face ! ((i + 1) mod length face)) = Some OUTSIDE)"
    and "\<not> (elem cs (face ! i) = Some OUTSIDE \<and>
            elem cs (face ! ((i + 1) mod length face)) = Some ON)"
  shows "edge_step vs ds cs vm face i (st, nf) =
           (st, nf @ emit vm (edgeIntersections st) cs (face ! i, face ! ((i + 1) mod length face)))"
  using assms
  by (auto simp: edge_step_def Let_def emit_def straddle_def)


lemma cut_invD:
  assumes "cut_inv p pl st"
  shows "inj_on (\<lambda>key. the (edgeIntersections st key)) (dom (edgeIntersections st))"
    and "(\<lambda>key. the (edgeIntersections st key)) ` dom (edgeIntersections st) =
           {length (snd (copyInside (vertices p) (classifications p pl)))..<length (newVertices st)}"
    and "\<And>key. key \<in> dom (edgeIntersections st) \<Longrightarrow>
           \<exists>ab \<in> set (face_edges p).
             key = getEdgeKey (fst ab) (snd ab) \<and>
             straddle (classifications p pl) (fst ab) (snd ab) \<and>
             newVertices st ! the (edgeIntersections st key) =
               intersection (vertices p) (distances p pl) (fst ab) (snd ab)"
    and "take (length (snd (copyInside (vertices p) (classifications p pl)))) (newVertices st) =
           snd (copyInside (vertices p) (classifications p pl))"
    and "length (snd (copyInside (vertices p) (classifications p pl))) \<le> length (newVertices st)"
    and "\<And>e. e \<in> set (capEdges st) \<Longrightarrow> fst e < length (newVertices st)"
  using assms unfolding cut_inv_def Let_def by blast+

lemma cut_inv_cached:
  assumes "cut_inv p pl st" "edgeIntersections st key = Some k"
  shows "k < length (newVertices st)"
    and "length (snd (copyInside (vertices p) (classifications p pl))) \<le> k"
proof -
  have "the (edgeIntersections st key) \<in>
          (\<lambda>key. the (edgeIntersections st key)) ` dom (edgeIntersections st)"
    using assms(2) by blast
  then have "k \<in> {length (snd (copyInside (vertices p) (classifications p pl)))..<
                   length (newVertices st)}"
    using cut_invD(2)[OF assms(1)] assms(2) by simp
  then show "k < length (newVertices st)"
    and "length (snd (copyInside (vertices p) (classifications p pl))) \<le> k"
    by simp_all
qed

lemma cut_inv_new:
  assumes inv: "cut_inv p pl st"
    and pair: "(a, b) \<in> set (face_edges p)"
    and str: "straddle (classifications p pl) a b"
    and new: "edgeIntersections st (getEdgeKey a b) = None"
  shows "cut_inv p pl
           (st\<lparr>newVertices := newVertices st @ [intersection (vertices p) (distances p pl) a b],
               edgeIntersections :=
                 (edgeIntersections st)(getEdgeKey a b \<mapsto> length (newVertices st))\<rparr>)"
proof -
  let ?C = "edgeIntersections st"
  let ?nv = "newVertices st"
  let ?key = "getEdgeKey a b"
  let ?n0 = "length (snd (copyInside (vertices p) (classifications p pl)))"
  let ?C' = "?C(?key \<mapsto> length ?nv)"
  let ?nv' = "?nv @ [intersection (vertices p) (distances p pl) a b]"
  note d = cut_invD[OF inv]
  have old: "\<And>key. key \<in> dom ?C \<Longrightarrow> the (?C key) < length ?nv"
    using cut_inv_cached(1)[OF inv] by auto
  have notin: "?key \<notin> dom ?C" using new by auto
  have dom': "dom ?C' = insert ?key (dom ?C)" by simp
  have same: "\<And>key. key \<in> dom ?C \<Longrightarrow> the (?C' key) = the (?C key)"
    using notin by auto
  have i1: "inj_on (\<lambda>key. the (?C' key)) (dom ?C')"
    unfolding dom'
  proof (rule inj_onI)
    fix u w
    assume u: "u \<in> insert ?key (dom ?C)" and w: "w \<in> insert ?key (dom ?C)"
      and eq: "the (?C' u) = the (?C' w)"
    show "u = w"
    proof (cases "u = ?key")
      case True
      show ?thesis
      proof (cases "w = ?key")
        case True
        with \<open>u = ?key\<close> show ?thesis by simp
      next
        case False
        then have "w \<in> dom ?C" using w by simp
        then have "the (?C' w) < length ?nv" using same old by simp
        moreover have "the (?C' u) = length ?nv" using True by simp
        ultimately show ?thesis using eq by simp
      qed
    next
      case False
      then have ud: "u \<in> dom ?C" using u by simp
      show ?thesis
      proof (cases "w = ?key")
        case True
        then have "the (?C' w) = length ?nv" by simp
        moreover have "the (?C' u) < length ?nv" using same old ud by simp
        ultimately show ?thesis using eq by simp
      next
        case False
        then have wd: "w \<in> dom ?C" using w by simp
        have "the (?C u) = the (?C w)" using eq same ud wd by simp
        then show ?thesis using d(1) ud wd by (simp add: inj_on_def)
      qed
    qed
  qed
  have "(\<lambda>key. the (?C' key)) ` dom ?C' =
          insert (length ?nv) ((\<lambda>key. the (?C' key)) ` dom ?C)"
    unfolding dom' by simp
  also have "(\<lambda>key. the (?C' key)) ` dom ?C = (\<lambda>key. the (?C key)) ` dom ?C"
    using same by (intro image_cong) auto
  also have "insert (length ?nv) \<dots> = {?n0..<length ?nv'}"
    using d(2) d(5) by auto
  finally have i2: "(\<lambda>key. the (?C' key)) ` dom ?C' = {?n0..<length ?nv'}" .
  have i3: "\<exists>ab \<in> set (face_edges p).
              key = getEdgeKey (fst ab) (snd ab) \<and>
              straddle (classifications p pl) (fst ab) (snd ab) \<and>
              ?nv' ! the (?C' key) = intersection (vertices p) (distances p pl) (fst ab) (snd ab)"
    if "key \<in> dom ?C'" for key
  proof (cases "key = ?key")
    case True
    then show ?thesis using pair str by (intro bexI[of _ "(a, b)"]) auto
  next
    case False
    then have kd: "key \<in> dom ?C" using that by simp
    then have "the (?C' key) = the (?C key)" "the (?C key) < length ?nv"
      using same old by auto
    then have "?nv' ! the (?C' key) = ?nv ! the (?C key)"
      by (simp add: nth_append)
    then show ?thesis using d(3)[OF kd] by auto
  qed
  have i4: "take ?n0 ?nv' = snd (copyInside (vertices p) (classifications p pl))"
    using d(4) d(5) by simp
  have i5: "?n0 \<le> length ?nv'" using d(5) by simp
  have i6: "\<And>e. e \<in> set (capEdges st) \<Longrightarrow> fst e < length ?nv'"
    using d(6) by fastforce
  show ?thesis
    unfolding cut_inv_def Let_def
    using i1 i2 i3 i4 i5 i6 by simp
qed

lemma cut_inv_cap:
  assumes "cut_inv p pl st" "k < length (newVertices st)"
  shows "cut_inv p pl (st\<lparr>capEdges := capEdges st @ [(k, u, w)]\<rparr>)"
  using assms unfolding cut_inv_def Let_def by auto


lemma emit_mono:
  assumes "C \<subseteq>\<^sub>m C'" "straddle cs a b \<Longrightarrow> getEdgeKey a b \<in> dom C"
  shows "emit vm C cs (a, b) = emit vm C' cs (a, b)"
proof (cases "straddle cs a b")
  case True
  then have "C' (getEdgeKey a b) = C (getEdgeKey a b)"
    using assms by (auto simp: map_le_def)
  then show ?thesis by (simp add: emit_def)
next
  case False
  then show ?thesis by (simp add: emit_def)
qed

lemma edge_step_inv:
  assumes inv: "cut_inv p pl st"
    and cp: "copyInside (vertices p) (classifications p pl) = (vm, nv0)"
    and pair: "(face ! i, face ! ((i + 1) mod length face)) \<in> set (face_edges p)"
    and step: "edge_step (vertices p) (distances p pl) (classifications p pl) vm face i (st, nf) =
                 (st', nf')"
  shows "cut_inv p pl st'"
    and "edgeIntersections st \<subseteq>\<^sub>m edgeIntersections st'"
    and "newFaces st' = newFaces st"
    and "nf' = nf @ emit vm (edgeIntersections st') (classifications p pl)
                      (face ! i, face ! ((i + 1) mod length face))"
    and "straddle (classifications p pl) (face ! i) (face ! ((i + 1) mod length face)) \<Longrightarrow>
           getEdgeKey (face ! i) (face ! ((i + 1) mod length face)) \<in> dom (edgeIntersections st')"
proof -
  let ?cs = "classifications p pl"
  let ?a = "face ! i"
  let ?b = "face ! ((i + 1) mod length face)"
  have vmk: "k < length (newVertices st)" if "vm u = Some k" for u k
    using copyInside_Some(1)[OF cp that] cut_invD(5)[OF inv] cp by simp
  consider (str) "straddle ?cs ?a ?b"
    | (on_out) "elem ?cs ?a = Some ON" "elem ?cs ?b = Some OUTSIDE"
    | (out_on) "elem ?cs ?a = Some OUTSIDE" "elem ?cs ?b = Some ON"
    | (other) "\<not> straddle ?cs ?a ?b" "\<not> (elem ?cs ?a = Some ON \<and> elem ?cs ?b = Some OUTSIDE)"
        "\<not> (elem ?cs ?a = Some OUTSIDE \<and> elem ?cs ?b = Some ON)"
    by blast
  then have "cut_inv p pl st' \<and> edgeIntersections st \<subseteq>\<^sub>m edgeIntersections st' \<and>
             newFaces st' = newFaces st \<and>
             nf' = nf @ emit vm (edgeIntersections st') ?cs (?a, ?b) \<and>
             (straddle ?cs ?a ?b \<longrightarrow> getEdgeKey ?a ?b \<in> dom (edgeIntersections st'))"
  proof cases
    case str
    obtain k st1 where g: "getOrCreateIntersection (vertices p) (distances p pl) st ?a ?b = (k, st1)"
      by (cases "getOrCreateIntersection (vertices p) (distances p pl) st ?a ?b") auto
    let ?cap = "if elem ?cs ?a = Some INSIDE then (k, ?a, ?b) else (k, ?b, ?a)"
    have r: "st' = st1\<lparr>capEdges := capEdges st1 @ [?cap]\<rparr>"
      "nf' = nf @ emit vm (edgeIntersections st1) ?cs (?a, ?b)"
      using step unfolding edge_step_straddle[OF str g] by auto
    have st1: "cut_inv p pl st1 \<and> edgeIntersections st \<subseteq>\<^sub>m edgeIntersections st1 \<and>
               newFaces st1 = newFaces st \<and> edgeIntersections st1 (getEdgeKey ?a ?b) = Some k"
      using goc_cases[OF g]
    proof
      assume "edgeIntersections st (getEdgeKey ?a ?b) = Some k \<and> st1 = st"
      then show ?thesis using inv by simp
    next
      assume n: "edgeIntersections st (getEdgeKey ?a ?b) = None \<and> k = length (newVertices st) \<and>
        st1 = st\<lparr>newVertices := newVertices st @ [intersection (vertices p) (distances p pl) ?a ?b],
                  edgeIntersections :=
                    (edgeIntersections st)(getEdgeKey ?a ?b \<mapsto> length (newVertices st))\<rparr>"
      then show ?thesis
        using cut_inv_new[OF inv pair str] by (auto simp: map_le_def)
    qed
    then have k: "k < length (newVertices st1)"
      using cut_inv_cached(1) by blast
    have "cut_inv p pl st'"
    proof (cases "elem ?cs ?a = Some INSIDE")
      case True
      then show ?thesis using cut_inv_cap[OF conjunct1[OF st1] k] r(1) by simp
    next
      case False
      then show ?thesis using cut_inv_cap[OF conjunct1[OF st1] k] r(1) by simp
    qed
    then show ?thesis using st1 r by auto
  next
    case on_out
    have r: "st' = (case vm ?a of
                      Some k \<Rightarrow> st\<lparr>capEdges := capEdges st @ [(k, ?a, ?b)]\<rparr> | None \<Rightarrow> st)"
      "nf' = nf @ emit vm (edgeIntersections st) ?cs (?a, ?b)"
      using step unfolding edge_step_on_outside[OF on_out] by auto
    have ns: "\<not> straddle ?cs ?a ?b" using on_out by (simp add: straddle_def)
    show ?thesis
    proof (cases "vm ?a")
      case None
      then show ?thesis using r inv ns by simp
    next
      case (Some k)
      then show ?thesis using r inv ns cut_inv_cap[OF inv vmk[OF Some]] by simp
    qed
  next
    case out_on
    have r: "st' = (case vm ?b of
                      Some k \<Rightarrow> st\<lparr>capEdges := capEdges st @ [(k, ?b, ?a)]\<rparr> | None \<Rightarrow> st)"
      "nf' = nf @ emit vm (edgeIntersections st) ?cs (?a, ?b)"
      using step unfolding edge_step_outside_on[OF out_on] by auto
    have ns: "\<not> straddle ?cs ?a ?b" using out_on by (simp add: straddle_def)
    show ?thesis
    proof (cases "vm ?b")
      case None
      then show ?thesis using r inv ns by simp
    next
      case (Some k)
      then show ?thesis using r inv ns cut_inv_cap[OF inv vmk[OF Some]] by simp
    qed
  next
    case other
    have r: "st' = st" "nf' = nf @ emit vm (edgeIntersections st) ?cs (?a, ?b)"
      using step unfolding edge_step_other[OF other] by auto
    then show ?thesis using inv other(1) by simp
  qed
  then show "cut_inv p pl st'"
    and "edgeIntersections st \<subseteq>\<^sub>m edgeIntersections st'"
    and "newFaces st' = newFaces st"
    and "nf' = nf @ emit vm (edgeIntersections st') ?cs (?a, ?b)"
    and "straddle ?cs ?a ?b \<Longrightarrow> getEdgeKey ?a ?b \<in> dom (edgeIntersections st')"
    by blast+
qed

lemma consecutive_nth:
  "i < length face \<Longrightarrow> consecutive face ! i = (face ! i, face ! ((i + 1) mod length face))"
  by (simp add: consecutive_def)

lemma length_consecutive: "length (consecutive face) = length face"
  by (simp add: consecutive_def)

lemma face_edges_member:
  "face \<in> set (faces p) \<Longrightarrow> i < length face \<Longrightarrow>
     (face ! i, face ! ((i + 1) mod length face)) \<in> set (face_edges p)"
  unfolding face_edges_def consecutive_def by (auto intro!: bexI[of _ face] image_eqI[of _ _ i])

lemma edge_fold_inv:
  assumes inv: "cut_inv p pl st"
    and cp: "copyInside (vertices p) (classifications p pl) = (vm, nv0)"
    and face: "face \<in> set (faces p)"
    and n: "n \<le> length face"
    and fold: "fold (edge_step (vertices p) (distances p pl) (classifications p pl) vm face)
                 [0..<n] (st, []) = (st', nf')"
  shows "cut_inv p pl st' \<and> edgeIntersections st \<subseteq>\<^sub>m edgeIntersections st' \<and>
         newFaces st' = newFaces st \<and>
         nf' = concat (map (emit vm (edgeIntersections st') (classifications p pl))
                        (take n (consecutive face))) \<and>
         (\<forall>ab \<in> set (take n (consecutive face)).
            straddle (classifications p pl) (fst ab) (snd ab) \<longrightarrow>
            getEdgeKey (fst ab) (snd ab) \<in> dom (edgeIntersections st'))"
  using n fold
proof (induction n arbitrary: st' nf')
  case 0
  then show ?case using inv by simp
next
  case (Suc n)
  let ?cs = "classifications p pl"
  let ?step = "edge_step (vertices p) (distances p pl) ?cs vm face"
  obtain st1 nf1 where f1: "fold ?step [0..<n] (st, []) = (st1, nf1)"
    by (cases "fold ?step [0..<n] (st, [])") auto
  have nlt: "n < length face" using Suc.prems(1) by simp
  have ih: "cut_inv p pl st1" "edgeIntersections st \<subseteq>\<^sub>m edgeIntersections st1"
    "newFaces st1 = newFaces st"
    "nf1 = concat (map (emit vm (edgeIntersections st1) ?cs) (take n (consecutive face)))"
    "\<And>ab. ab \<in> set (take n (consecutive face)) \<Longrightarrow> straddle ?cs (fst ab) (snd ab) \<Longrightarrow>
       getEdgeKey (fst ab) (snd ab) \<in> dom (edgeIntersections st1)"
    using Suc.IH[OF _ f1] nlt by auto
  have s: "?step n (st1, nf1) = (st', nf')"
    using Suc.prems(2) f1 by simp
  note e = edge_step_inv[OF ih(1) cp face_edges_member[OF face nlt] s]
  have tk: "take (Suc n) (consecutive face) =
              take n (consecutive face) @ [(face ! n, face ! ((n + 1) mod length face))]"
    using nlt by (simp add: take_Suc_conv_app_nth length_consecutive consecutive_nth)
  have old: "map (emit vm (edgeIntersections st1) ?cs) (take n (consecutive face)) =
             map (emit vm (edgeIntersections st') ?cs) (take n (consecutive face))"
  proof (rule map_cong[OF refl])
    fix ab assume "ab \<in> set (take n (consecutive face))"
    then show "emit vm (edgeIntersections st1) ?cs ab = emit vm (edgeIntersections st') ?cs ab"
      using emit_mono[OF e(2), of ?cs "fst ab" "snd ab" vm] ih(5)[of ab] by simp
  qed
  have dom_mono: "dom (edgeIntersections st1) \<subseteq> dom (edgeIntersections st')"
    using e(2) by (rule map_le_implies_dom_le)
  have "nf' = concat (map (emit vm (edgeIntersections st') ?cs) (take (Suc n) (consecutive face)))"
    unfolding tk using e(4) ih(4) old by simp
  moreover have "\<forall>ab \<in> set (take (Suc n) (consecutive face)).
            straddle ?cs (fst ab) (snd ab) \<longrightarrow>
            getEdgeKey (fst ab) (snd ab) \<in> dom (edgeIntersections st')"
  proof
    fix ab assume m: "ab \<in> set (take (Suc n) (consecutive face))"
    show "straddle ?cs (fst ab) (snd ab) \<longrightarrow>
            getEdgeKey (fst ab) (snd ab) \<in> dom (edgeIntersections st')"
    proof (cases "ab \<in> set (take n (consecutive face))")
      case True
      then show ?thesis using ih(5)[of ab] dom_mono by blast
    next
      case False
      then have "ab = (face ! n, face ! ((n + 1) mod length face))"
        using m unfolding tk by simp
      then show ?thesis using e(5) by simp
    qed
  qed
  moreover have "edgeIntersections st \<subseteq>\<^sub>m edgeIntersections st'"
    using ih(2) e(2) by (rule map_le_trans)
  ultimately show ?case using e(1) e(3) ih(3) by simp
qed


lemma face_step_inv:
  assumes inv: "cut_inv p pl st"
    and cp: "copyInside (vertices p) (classifications p pl) = (vm, nv0)"
    and face: "face \<in> set (faces p)"
    and st': "st' = face_step (vertices p) (distances p pl) (classifications p pl) vm face st"
  shows "cut_inv p pl st'"
    and "edgeIntersections st \<subseteq>\<^sub>m edgeIntersections st'"
    and "newFaces st' = newFaces st @
           filter (\<lambda>f. 3 \<le> length f)
             [rebuilt_face vm (edgeIntersections st') (classifications p pl) face]"
    and "\<And>ab. ab \<in> set (consecutive face) \<Longrightarrow>
           straddle (classifications p pl) (fst ab) (snd ab) \<Longrightarrow>
           getEdgeKey (fst ab) (snd ab) \<in> dom (edgeIntersections st')"
proof -
  let ?cs = "classifications p pl"
  let ?step = "edge_step (vertices p) (distances p pl) ?cs vm face"
  obtain st1 nf where f: "fold ?step [0..<length face] (st, []) = (st1, nf)"
    by (cases "fold ?step [0..<length face] (st, [])") auto
  have e: "cut_inv p pl st1" "edgeIntersections st \<subseteq>\<^sub>m edgeIntersections st1"
    "newFaces st1 = newFaces st"
    "nf = rebuilt_face vm (edgeIntersections st1) ?cs face"
    "\<And>ab. ab \<in> set (consecutive face) \<Longrightarrow> straddle ?cs (fst ab) (snd ab) \<Longrightarrow>
       getEdgeKey (fst ab) (snd ab) \<in> dom (edgeIntersections st1)"
    using edge_fold_inv[OF inv cp face le_refl f]
    by (auto simp: rebuilt_face_def length_consecutive)
  have r: "st' = (if 3 \<le> length nf then st1\<lparr>newFaces := newFaces st1 @ [nf]\<rparr> else st1)"
    by (simp add: st' face_step_def f)
  have c: "edgeIntersections st' = edgeIntersections st1"
    using r by simp
  show "cut_inv p pl st'"
    using e(1) unfolding r cut_inv_def Let_def by simp
  show "edgeIntersections st \<subseteq>\<^sub>m edgeIntersections st'"
    using e(2) c by simp
  show "newFaces st' = newFaces st @
           filter (\<lambda>f. 3 \<le> length f) [rebuilt_face vm (edgeIntersections st') ?cs face]"
    unfolding c using e(3) e(4) r by simp
  show "\<And>ab. ab \<in> set (consecutive face) \<Longrightarrow> straddle ?cs (fst ab) (snd ab) \<Longrightarrow>
           getEdgeKey (fst ab) (snd ab) \<in> dom (edgeIntersections st')"
    unfolding c using e(5) by simp
qed

lemma rebuilt_face_mono:
  assumes "C \<subseteq>\<^sub>m C'"
    and "\<And>ab. ab \<in> set (consecutive face) \<Longrightarrow> straddle cs (fst ab) (snd ab) \<Longrightarrow>
           getEdgeKey (fst ab) (snd ab) \<in> dom C"
  shows "rebuilt_face vm C cs face = rebuilt_face vm C' cs face"
proof -
  have "map (emit vm C cs) (consecutive face) = map (emit vm C' cs) (consecutive face)"
  proof (rule map_cong[OF refl])
    fix ab assume "ab \<in> set (consecutive face)"
    then show "emit vm C cs ab = emit vm C' cs ab"
      using emit_mono[OF assms(1), of cs "fst ab" "snd ab" vm] assms(2)[of ab] by simp
  qed
  then show ?thesis unfolding rebuilt_face_def by (rule arg_cong)
qed

lemma faces_fold_inv:
  assumes inv: "cut_inv p pl st"
    and cp: "copyInside (vertices p) (classifications p pl) = (vm, nv0)"
    and sub: "set fs \<subseteq> set (faces p)"
  shows "cut_inv p pl
           (fold (face_step (vertices p) (distances p pl) (classifications p pl) vm) fs st) \<and>
         edgeIntersections st \<subseteq>\<^sub>m
           edgeIntersections
             (fold (face_step (vertices p) (distances p pl) (classifications p pl) vm) fs st) \<and>
         newFaces (fold (face_step (vertices p) (distances p pl) (classifications p pl) vm) fs st) =
           newFaces st @
           filter (\<lambda>f. 3 \<le> length f)
             (map (rebuilt_face vm
                    (edgeIntersections
                      (fold (face_step (vertices p) (distances p pl) (classifications p pl) vm)
                         fs st))
                    (classifications p pl)) fs) \<and>
         (\<forall>face \<in> set fs. \<forall>ab \<in> set (consecutive face).
            straddle (classifications p pl) (fst ab) (snd ab) \<longrightarrow>
            getEdgeKey (fst ab) (snd ab) \<in>
              dom (edgeIntersections
                    (fold (face_step (vertices p) (distances p pl) (classifications p pl) vm)
                       fs st)))"
  using sub
proof (induction fs rule: rev_induct)
  case Nil
  then show ?case using inv by simp
next
  case (snoc face fs)
  let ?cs = "classifications p pl"
  let ?fstep = "face_step (vertices p) (distances p pl) ?cs vm"
  let ?st1 = "fold ?fstep fs st"
  let ?st2 = "fold ?fstep (fs @ [face]) st"
  have face: "face \<in> set (faces p)" and fs: "set fs \<subseteq> set (faces p)"
    using snoc.prems by auto
  have ih: "cut_inv p pl ?st1" "edgeIntersections st \<subseteq>\<^sub>m edgeIntersections ?st1"
    "newFaces ?st1 = newFaces st @
       filter (\<lambda>f. 3 \<le> length f) (map (rebuilt_face vm (edgeIntersections ?st1) ?cs) fs)"
    "\<And>f ab. f \<in> set fs \<Longrightarrow> ab \<in> set (consecutive f) \<Longrightarrow> straddle ?cs (fst ab) (snd ab) \<Longrightarrow>
       getEdgeKey (fst ab) (snd ab) \<in> dom (edgeIntersections ?st1)"
    using snoc.IH[OF fs] by auto
  have s2: "?st2 = ?fstep face ?st1" by simp
  note f = face_step_inv[OF ih(1) cp face s2]
  have dom_mono: "dom (edgeIntersections ?st1) \<subseteq> dom (edgeIntersections ?st2)"
    using f(2) by (rule map_le_implies_dom_le)
  have old: "map (rebuilt_face vm (edgeIntersections ?st1) ?cs) fs =
             map (rebuilt_face vm (edgeIntersections ?st2) ?cs) fs"
  proof (rule map_cong[OF refl])
    fix g assume "g \<in> set fs"
    then show "rebuilt_face vm (edgeIntersections ?st1) ?cs g =
               rebuilt_face vm (edgeIntersections ?st2) ?cs g"
      using rebuilt_face_mono[OF f(2), of g ?cs vm] ih(4)[of g] by blast
  qed
  have a: "cut_inv p pl ?st2" by (rule f(1))
  have b: "edgeIntersections st \<subseteq>\<^sub>m edgeIntersections ?st2"
    using ih(2) f(2) by (rule map_le_trans)
  have c: "newFaces ?st2 = newFaces st @
             filter (\<lambda>f. 3 \<le> length f)
               (map (rebuilt_face vm (edgeIntersections ?st2) ?cs) (fs @ [face]))"
    using f(3) ih(3) old by simp
  have d: "\<forall>g \<in> set (fs @ [face]). \<forall>ab \<in> set (consecutive g).
            straddle ?cs (fst ab) (snd ab) \<longrightarrow>
            getEdgeKey (fst ab) (snd ab) \<in> dom (edgeIntersections ?st2)"
  proof (intro ballI impI)
    fix g ab
    assume g: "g \<in> set (fs @ [face])" and ab: "ab \<in> set (consecutive g)"
      and str: "straddle ?cs (fst ab) (snd ab)"
    show "getEdgeKey (fst ab) (snd ab) \<in> dom (edgeIntersections ?st2)"
    proof (cases "g \<in> set fs")
      case True
      then show ?thesis using ih(4)[OF True ab str] dom_mono by blast
    next
      case False
      then have "g = face" using g by simp
      then show ?thesis using f(4)[of ab] ab str by simp
    qed
  qed
  show ?case using a b c d by blast
qed

lemma cut_inv_init:
  "cut_inv p pl \<lparr>newVertices = snd (copyInside (vertices p) (classifications p pl)),
                  edgeIntersections = Map.empty, capEdges = [], newFaces = []\<rparr>"
  by (simp add: cut_inv_def)

lemma rebuild_fold:
  "rebuild p pl =
     fold (face_step (vertices p) (distances p pl) (classifications p pl)
             (fst (copyInside (vertices p) (classifications p pl))))
          (faces p)
          \<lparr>newVertices = snd (copyInside (vertices p) (classifications p pl)),
           edgeIntersections = Map.empty, capEdges = [], newFaces = []\<rparr>"
  by (simp add: rebuild_def Let_def split: prod.splits)

lemma rebuild_inv:
  shows "cut_inv p pl (rebuild p pl)"
    and "newFaces (rebuild p pl) =
           filter (\<lambda>f. 3 \<le> length f)
             (map (rebuilt_face (fst (copyInside (vertices p) (classifications p pl)))
                     (edgeIntersections (rebuild p pl)) (classifications p pl))
                  (faces p))"
    and "\<And>ab. ab \<in> set (face_edges p) \<Longrightarrow> straddle (classifications p pl) (fst ab) (snd ab) \<Longrightarrow>
           getEdgeKey (fst ab) (snd ab) \<in> dom (edgeIntersections (rebuild p pl))"
proof -
  let ?cs = "classifications p pl"
  have cp: "copyInside (vertices p) ?cs =
              (fst (copyInside (vertices p) ?cs), snd (copyInside (vertices p) ?cs))"
    by simp
  note f = faces_fold_inv[OF cut_inv_init cp subset_refl, folded rebuild_fold]
  show "cut_inv p pl (rebuild p pl)" using f by blast
  show "newFaces (rebuild p pl) =
           filter (\<lambda>f. 3 \<le> length f)
             (map (rebuilt_face (fst (copyInside (vertices p) ?cs))
                     (edgeIntersections (rebuild p pl)) ?cs) (faces p))"
    using f by simp
  show "\<And>ab. ab \<in> set (face_edges p) \<Longrightarrow> straddle ?cs (fst ab) (snd ab) \<Longrightarrow>
           getEdgeKey (fst ab) (snd ab) \<in> dom (edgeIntersections (rebuild p pl))"
    using f unfolding face_edges_def by auto
qed


subsection \<open>Sorting and deduplication keep the elements\<close>

lemma set_insert_cmp: "set (insert_cmp c a bs) = insert a (set bs)"
  by (induction bs) auto

lemma length_insert_cmp: "length (insert_cmp c a bs) = Suc (length bs)"
  by (induction bs) auto

lemma set_sort_cmp: "set (sort_cmp c bs) = set bs"
  unfolding sort_cmp_def by (induction bs) (simp_all add: set_insert_cmp)

lemma length_sort_cmp: "length (sort_cmp c bs) = length bs"
  unfolding sort_cmp_def by (induction bs) (simp_all add: length_insert_cmp)

lemma set_uniq: "set (uniq bs) = set bs"
proof (induction bs rule: uniq.induct)
  case 1
  show ?case by simp
next
  case (2 a as)
  then show ?case by auto
qed

lemma distinct_uniq: "distinct (uniq bs)"
proof (induction bs rule: uniq.induct)
  case 1
  show ?case by simp
next
  case (2 a as)
  then show ?case by (simp add: set_uniq)
qed

lemma buildCapFace_set:
  assumes "buildCapFace ces nv pl = Some cf"
  shows "set cf = fst ` set ces"
proof -
  have "cf = sort_cmp (\<lambda>a b. fsub (cap_angle nv pl (cap_center nv (uniq (map fst ces))) a)
                                  (cap_angle nv pl (cap_center nv (uniq (map fst ces))) b))
               (uniq (map fst ces))"
    using assms by (simp add: buildCapFace_def Let_def split: if_splits)
  then have "set cf = set (map fst ces)"
    by (simp only: set_sort_cmp set_uniq)
  then show ?thesis by simp
qed

lemma length_classifications: "length (classifications p pl) = length (vertices p)"
  by (simp add: classifications_def distances_def)

lemma consecutive_fst:
  assumes "ab \<in> set (consecutive face)"
  shows "fst ab \<in> set face"
  using assms by (auto simp: consecutive_def)

lemma rebuilt_face_entries:
  assumes face: "face \<in> set (faces p)"
    and valid: "\<forall>i \<in> set face. i < length (vertices p)"
    and e: "e \<in> set (rebuilt_face (fst (copyInside (vertices p) (classifications p pl)))
                      (edgeIntersections (rebuild p pl)) (classifications p pl) face)"
  shows "\<exists>k. e = Some k \<and> k < length (newVertices (rebuild p pl))"
proof -
  let ?cs = "classifications p pl"
  let ?vm = "fst (copyInside (vertices p) ?cs)"
  let ?C = "edgeIntersections (rebuild p pl)"
  have cp: "copyInside (vertices p) ?cs = (?vm, snd (copyInside (vertices p) ?cs))"
    by simp
  note inv = rebuild_inv(1)[of p pl]
  from e obtain ab where ab: "ab \<in> set (consecutive face)" and m: "e \<in> set (emit ?vm ?C ?cs ab)"
    by (auto simp: rebuilt_face_def)
  have a: "fst ab < length (vertices p)"
    using consecutive_fst[OF ab] valid by blast
  have edge: "ab \<in> set (face_edges p)"
    using ab face by (auto simp: face_edges_def)
  from m consider (v) "elem ?cs (fst ab) \<noteq> Some OUTSIDE" "e = ?vm (fst ab)"
    | (c) "straddle ?cs (fst ab) (snd ab)" "e = ?C (getEdgeKey (fst ab) (snd ab))"
    by (cases ab) (auto simp: emit_def split: if_splits)
  then show ?thesis
  proof cases
    case v
    have "?cs ! fst ab \<noteq> OUTSIDE"
      using v(1) a by (simp add: elem_def length_classifications)
    then obtain k where k: "?vm (fst ab) = Some k"
      using copyInside_defined[OF cp a] by blast
    have "k < length (newVertices (rebuild p pl))"
      using copyInside_Some(1)[OF cp k] cut_invD(5)[OF inv] by simp
    then show ?thesis using v(2) k by simp
  next
    case c
    then obtain k where k: "?C (getEdgeKey (fst ab) (snd ab)) = Some k"
      using rebuild_inv(3)[OF edge c(1)] by blast
    then show ?thesis using c(2) cut_inv_cached(1)[OF inv k] by simp
  qed
qed

lemma poly_inv_iff:
  "poly_inv p \<longleftrightarrow> (\<forall>face \<in> set (faces p). 3 \<le> length face \<and> (\<forall>i \<in> set face. i < length (vertices p)))"
  by (simp add: poly_inv_def list_all_iff)

lemma cutWithPlane_rebuilt:
  assumes inv: "poly_inv p" and out: "hasOutside p pl" and ins: "hasInside p pl"
  shows "\<exists>capFaces.
           cutWithPlane p pl =
             Inr \<lparr>vertices = newVertices (rebuild p pl),
                  faces = map (map the) (newFaces (rebuild p pl)) @ capFaces\<rparr> \<and>
           (\<forall>f \<in> set (newFaces (rebuild p pl)). 3 \<le> length f \<and>
              (\<forall>e \<in> set f. \<exists>k. e = Some k \<and> k < length (newVertices (rebuild p pl)))) \<and>
           (\<forall>f \<in> set capFaces. 3 \<le> length f \<and>
              (\<forall>k \<in> set f. k < length (newVertices (rebuild p pl))))"
proof -
  let ?st = "rebuild p pl"
  let ?capFaces = "if 3 \<le> length (capEdges ?st) then
                     (case buildCapFace (capEdges ?st) (newVertices ?st) pl of
                        Some capFace \<Rightarrow> if 3 \<le> length capFace then [capFace] else []
                      | None \<Rightarrow> [])
                   else []"
  have nf: "\<forall>f \<in> set (newFaces ?st). 3 \<le> length f \<and>
              (\<forall>e \<in> set f. \<exists>k. e = Some k \<and> k < length (newVertices ?st))"
  proof
    fix f assume "f \<in> set (newFaces ?st)"
    then have "f \<in> set (filter (\<lambda>f. 3 \<le> length f)
             (map (rebuilt_face (fst (copyInside (vertices p) (classifications p pl)))
                     (edgeIntersections ?st) (classifications p pl))
                  (faces p)))"
      using rebuild_inv(2)[of p pl] by simp
    then obtain face where face: "face \<in> set (faces p)" and len: "3 \<le> length f"
      and f: "f = rebuilt_face (fst (copyInside (vertices p) (classifications p pl)))
                    (edgeIntersections ?st) (classifications p pl) face"
      by auto
    have valid: "\<forall>i \<in> set face. i < length (vertices p)"
      using inv face by (simp add: poly_inv_iff)
    show "3 \<le> length f \<and> (\<forall>e \<in> set f. \<exists>k. e = Some k \<and> k < length (newVertices ?st))"
      using len rebuilt_face_entries[OF face valid] unfolding f by blast
  qed
  then have def: "list_all defined_face (newFaces ?st)"
    by (fastforce simp: list_all_iff defined_face_def)
  have cap: "\<forall>f \<in> set ?capFaces. 3 \<le> length f \<and> (\<forall>k \<in> set f. k < length (newVertices ?st))"
  proof
    fix f assume m: "f \<in> set ?capFaces"
    have "buildCapFace (capEdges ?st) (newVertices ?st) pl = Some f \<and> 3 \<le> length f"
    proof (cases "3 \<le> length (capEdges ?st)")
      case False
      then show ?thesis using m by simp
    next
      case True
      show ?thesis
      proof (cases "buildCapFace (capEdges ?st) (newVertices ?st) pl")
        case None
        then show ?thesis using m True by simp
      next
        case (Some g)
        show ?thesis
        proof (cases "3 \<le> length g")
          case False
          then show ?thesis using m True Some by simp
        next
          case g: True
          then show ?thesis using m True Some by simp
        qed
      qed
    qed
    then have b: "buildCapFace (capEdges ?st) (newVertices ?st) pl = Some f" and l: "3 \<le> length f"
      by simp_all
    have "\<forall>k \<in> set f. k < length (newVertices ?st)"
      using cut_invD(6)[OF rebuild_inv(1)[of p pl]] buildCapFace_set[OF b] by auto
    then show "3 \<le> length f \<and> (\<forall>k \<in> set f. k < length (newVertices ?st))"
      using l by simp
  qed
  have "cutWithPlane p pl =
          Inr \<lparr>vertices = newVertices ?st, faces = map (map the) (newFaces ?st) @ ?capFaces\<rparr>"
    using out ins def by (simp add: cutWithPlane_def Let_def)
  then show ?thesis using nf cap by blast
qed

lemma poly_inv_createBox: "poly_inv (createBox minX minY minZ maxX maxY maxZ)"
  by (simp add: poly_inv_def createBox_def)

text \<open>
  C7. The polyhedron invariant, that every face has at least 3 indices and every index of
  a face is an index of the vertex list, holds of each box of \<open>createBox\<close>, and
  \<open>cutWithPlane\<close> applied to a polyhedron with the invariant returns one with the
  invariant, in each of its three cases.
\<close>

theorem poly_inv_preserved:
  "poly_inv (createBox minX minY minZ maxX maxY maxZ) \<and>
   (poly_inv p \<longrightarrow> (\<exists>q. cutWithPlane p pl = Inr q \<and> poly_inv q))"
proof (intro conjI impI)
  show "poly_inv (createBox minX minY minZ maxX maxY maxZ)"
    by (rule poly_inv_createBox)
  assume inv: "poly_inv p"
  show "\<exists>q. cutWithPlane p pl = Inr q \<and> poly_inv q"
  proof (cases "hasOutside p pl")
    case False
    then show ?thesis using inv by (simp add: cutWithPlane_def)
  next
    case out: True
    show ?thesis
    proof (cases "hasInside p pl")
      case False
      then show ?thesis using out by (simp add: cutWithPlane_def poly_inv_def)
    next
      case True
      from cutWithPlane_rebuilt[OF inv out True]
      obtain capFaces where r: "cutWithPlane p pl =
             Inr \<lparr>vertices = newVertices (rebuild p pl),
                  faces = map (map the) (newFaces (rebuild p pl)) @ capFaces\<rparr>"
        and nf: "\<forall>f \<in> set (newFaces (rebuild p pl)). 3 \<le> length f \<and>
              (\<forall>e \<in> set f. \<exists>k. e = Some k \<and> k < length (newVertices (rebuild p pl)))"
        and cap: "\<forall>f \<in> set capFaces. 3 \<le> length f \<and>
              (\<forall>k \<in> set f. k < length (newVertices (rebuild p pl)))"
        by blast
      have "poly_inv \<lparr>vertices = newVertices (rebuild p pl),
                       faces = map (map the) (newFaces (rebuild p pl)) @ capFaces\<rparr>"
        unfolding poly_inv_iff using nf cap by fastforce
      then show ?thesis using r by simp
    qed
  qed
qed

theorem poly_inv_preserved_witness:
  "poly_inv unitBox \<and>
   (\<exists>q. cutWithPlane unitBox (new_Plane (Vec3 1 0 0) 0) = Inr q \<and> poly_inv q)"
proof -
  have h: "poly_inv unitBox"
    by (simp add: unitBox_def poly_inv_createBox)
  from poly_inv_preserved[of 0 0 0 0 0 0 unitBox "new_Plane (Vec3 1 0 0) 0"]
  have "poly_inv unitBox \<longrightarrow>
          (\<exists>q. cutWithPlane unitBox (new_Plane (Vec3 1 0 0) 0) = Inr q \<and> poly_inv q)"
    by (rule conjunct2)
  then show ?thesis using h by simp
qed

section \<open>The mesh data\<close>

lemma center_step_valid:
  "i < length vs \<Longrightarrow> \<exists>c'. center_step vs i (Inr c) = Inr c'"
  by (simp add: center_step_def elem_def)

lemma center_fold_valid:
  assumes "\<forall>i \<in> set face. i < length vs"
  shows "\<exists>c'. fold (center_step vs) face (Inr c) = Inr c'"
  using assms
proof (induction face arbitrary: c)
  case Nil
  show ?case by simp
next
  case (Cons i face)
  obtain c1 where "center_step vs i (Inr c) = Inr c1"
    using center_step_valid[of i vs c] Cons.prems by auto
  then show ?case using Cons.IH[of c1] Cons.prems by simp
qed

lemma faceCenter_valid:
  assumes "\<forall>i \<in> set face. i < length vs"
  shows "\<exists>fd. faceCenter vs face = Inr fd"
  using center_fold_valid[OF assms, of "Vec3 0 0 0"] by (auto simp: faceCenter_def)

lemma faceDataLoop_valid:
  assumes "\<forall>face \<in> set fs. \<forall>i \<in> set face. i < length vs"
  shows "\<exists>fds. faceDataLoop vs fs = Inr fds"
  using assms
proof (induction fs)
  case Nil
  show ?case by simp
next
  case (Cons face fs)
  obtain fd where "faceCenter vs face = Inr fd"
    using faceCenter_valid[of face vs] Cons.prems by auto
  moreover obtain fds where "faceDataLoop vs fs = Inr fds"
    using Cons by auto
  ultimately show ?case by simp
qed

lemma tetra_fold_valid:
  assumes "\<forall>t \<in> set ts. fst t < length vs \<and> fst (snd t) < length vs \<and> snd (snd t) < length vs"
  shows "\<exists>v'. fold (tetra_step vs) ts (Inr v) = Inr v'"
  using assms
proof (induction ts arbitrary: v)
  case Nil
  show ?case by simp
next
  case (Cons t ts)
  obtain a b c where t: "t = (a, b, c)" by (cases t)
  have "a < length vs" "b < length vs" "c < length vs"
    using Cons.prems t by auto
  then obtain v1 where "tetra_step vs t (Inr v) = Inr v1"
    by (simp add: tetra_step_def elem_def t)
  then show ?case using Cons.IH[of v1] Cons.prems by simp
qed

lemma fan_valid:
  assumes "\<forall>i \<in> set face. i < length vs" "t \<in> set (fan face)"
  shows "fst t < length vs \<and> fst (snd t) < length vs \<and> snd (snd t) < length vs"
proof -
  from assms(2) obtain i where i: "1 \<le> i" "i < length face - 1"
    and t: "t = (face ! 0, face ! i, face ! (i + 1))"
    by (auto simp: fan_def)
  have "face ! 0 \<in> set face" "face ! i \<in> set face" "face ! (i + 1) \<in> set face"
    using i by (auto intro!: nth_mem)
  then show ?thesis using assms(1) t by auto
qed

lemma volume_fold_valid:
  assumes "\<forall>face \<in> set fs. \<forall>i \<in> set face. i < length vs"
  shows "\<exists>v'. fold (\<lambda>face acc. if length face < 3 then acc
                                else fold (tetra_step vs) (fan face) acc) fs (Inr v) = Inr v'"
  using assms
proof (induction fs arbitrary: v)
  case Nil
  show ?case by simp
next
  case (Cons face fs)
  have "\<exists>v1. fold (tetra_step vs) (fan face) (Inr v) = Inr v1"
    using tetra_fold_valid[of "fan face" vs v] fan_valid[of face vs] Cons.prems by auto
  then obtain v1 where "fold (tetra_step vs) (fan face) (Inr v) = Inr v1" by blast
  then show ?case using Cons.IH[of v1] Cons.IH[of v] Cons.prems by auto
qed

lemma getVolume_valid:
  assumes "\<forall>face \<in> set (faces p). \<forall>i \<in> set face. i < length (vertices p)"
  shows "\<exists>v. getVolume p = Inr v"
proof (cases "length (vertices p) < 4 \<or> length (faces p) < 4")
  case True
  then show ?thesis by (auto simp: getVolume_def)
next
  case False
  obtain v' where "fold (\<lambda>face acc. if length face < 3 then acc
                               else fold (tetra_step (vertices p)) (fan face) acc)
                     (faces p) (Inr 0) = Inr v'"
    using volume_fold_valid[OF assms, of 0] by blast
  then show ?thesis using False by (simp add: getVolume_def)
qed

lemma length_fan_triangles:
  "length (concat (map (\<lambda>(a, b, c). [a, b, c]) (fan face))) = 3 * (length face - 2)"
proof -
  have h: "length (concat (map (\<lambda>(a, b, c). [a, b, c]) ts)) = 3 * length ts"
    for ts :: "(nat \<times> nat \<times> nat) list"
    by (induction ts) auto
  have "length (fan face) = length face - 2"
    by (simp add: fan_def)
  then show ?thesis using h[of "fan face"] by simp
qed

lemma length_triangulate:
  assumes "\<forall>face \<in> set fs. 3 \<le> length face"
  shows "length (triangulate fs) = 3 * (sum_list (map length fs) - 2 * length fs)"
proof -
  have "length (triangulate fs) = 3 * sum_list (map (\<lambda>face. length face - 2) fs)"
    using assms
  proof (induction fs)
    case Nil
    show ?case by (simp add: triangulate_def)
  next
    case (Cons face fs)
    have "length (triangulate (face # fs)) = 3 * (length face - 2) + length (triangulate fs)"
      using Cons.prems by (simp add: triangulate_def length_fan_triangles)
    moreover have "length (triangulate fs) = 3 * sum_list (map (\<lambda>face. length face - 2) fs)"
      using Cons by simp
    ultimately show ?case by (simp add: add_mult_distrib2)
  qed
  moreover have "sum_list (map (\<lambda>face. length face - 2) fs) + 2 * length fs = sum_list (map length fs)"
    using assms by (induction fs) auto
  ultimately show ?thesis by simp
qed

lemma getEdges_ordered:
  assumes "ab \<in> set (getEdges p)"
  shows "fst ab \<le> snd ab"
  using assms by (auto simp: getEdges_def set_uniq Let_def split: if_splits)

lemma getEdges_distinct: "distinct (map (\<lambda>(a, b). {a, b}) (getEdges p))"
proof -
  have d: "distinct (getEdges p)"
    by (simp add: getEdges_def distinct_uniq)
  have "inj_on (\<lambda>(a, b). {a, b}) (set (getEdges p))"
  proof (rule inj_onI)
    fix u w
    assume u: "u \<in> set (getEdges p)" and w: "w \<in> set (getEdges p)"
      and eq: "(case u of (a, b) \<Rightarrow> {a, b}) = (case w of (a, b) \<Rightarrow> {a, b})"
    obtain a b where ab: "u = (a, b)" by (cases u)
    obtain c e where ce: "w = (c, e)" by (cases w)
    have "a \<le> b" "c \<le> e"
      using getEdges_ordered[OF u] getEdges_ordered[OF w] ab ce by simp_all
    moreover have "{a, b} = {c, e}" using eq ab ce by simp
    ultimately have "a = c \<and> b = e"
      by (auto simp: doubleton_eq_iff)
    then show "u = w" using ab ce by simp
  qed
  then show ?thesis using d by (simp add: distinct_map)
qed

text \<open>
  C8. For every valid polyhedron, one with the invariant \<open>poly_inv\<close> (every face has at
  least 3 indices, all of them indices of the vertex list), with \<open>F\<close> faces of total
  size \<open>E_total\<close>, \<open>cellToMeshData\<close> returns an index array of length
  \<open>3 * (E_total - 2 * F)\<close> and an edge list in which no two entries are equal as
  unordered pairs.
\<close>

theorem cellToMeshData_counts:
  assumes "poly_inv p"
  shows "\<exists>m. cellToMeshData p = Inr m \<and>
           length (indices m) = 3 * (sum_list (map length (faces p)) - 2 * length (faces p)) \<and>
           distinct (map (\<lambda>(a, b). {a, b}) (edges m))"
proof -
  have valid: "\<forall>face \<in> set (faces p). \<forall>i \<in> set face. i < length (vertices p)"
    and three: "\<forall>face \<in> set (faces p). 3 \<le> length face"
    using assms by (simp_all add: poly_inv_iff)
  obtain fds where fds: "faceDataLoop (vertices p) (faces p) = Inr fds"
    using faceDataLoop_valid[OF valid] by blast
  obtain v where v: "getVolume p = Inr v"
    using getVolume_valid[OF valid] by blast
  show ?thesis
    using fds v length_triangulate[OF three] getEdges_distinct[of p]
    by (simp add: cellToMeshData_def)
qed

theorem cellToMeshData_counts_witness:
  "poly_inv unitBox \<and>
   (\<exists>m. cellToMeshData unitBox = Inr m \<and> length (indices m) = 36 \<and>
        distinct (map (\<lambda>(a, b). {a, b}) (edges m)))"
proof -
  have h: "poly_inv unitBox"
    by (simp add: unitBox_def poly_inv_createBox)
  show ?thesis
    using h cellToMeshData_counts[OF h] by (simp add: unitBox_faces)
qed

section \<open>Evaluation of a cut\<close>

lemmas cut_eval = face_step_def edge_step_def getOrCreateIntersection_def intersection_def
  getEdgeKey_def elem_def

section \<open>The error and the sign of a rounding\<close>

lemma rhe_error: "\<bar>of_int (rhe t) - t\<bar> \<le> 1 / 2"
proof -
  have "of_int \<lfloor>t\<rfloor> \<le> t" "t < of_int \<lfloor>t\<rfloor> + 1"
    by linarith+
  then show ?thesis
    unfolding rhe_def Let_def by (simp add: abs_if) linarith
qed

lemma ulp_exp_lower:
  assumes "v \<noteq> 0"
  shows "2 powi (ulp_exp v + 52) \<le> \<bar>v\<bar>"
proof -
  have pos: "0 < \<bar>v\<bar>" using assms by simp
  have "(2::real) powr of_int \<lfloor>log 2 \<bar>v\<bar>\<rfloor> \<le> \<bar>v\<bar>"
    using floor_log_eq_powr_iff[of "\<bar>v\<bar>" 2 "\<lfloor>log 2 \<bar>v\<bar>\<rfloor>"] pos by simp
  moreover have "(2::real) powr of_int \<lfloor>log 2 \<bar>v\<bar>\<rfloor> = 2 powi \<lfloor>log 2 \<bar>v\<bar>\<rfloor>"
    by (rule powr_real_of_int') simp_all
  ultimately show ?thesis by (simp add: ulp_exp_def)
qed

lemma fl_error: "\<bar>fl v - v\<bar> \<le> \<bar>v\<bar> / 2 ^ 53"
proof (cases "v = 0")
  case True
  then show ?thesis by (simp add: fl_def)
next
  case False
  let ?e = "ulp_exp v"
  let ?u = "(2::real) powi ?e"
  have upos: "0 < ?u" by simp
  have "fl v - v = (of_int (rhe (v / ?u)) - v / ?u) * ?u"
    using False by (simp add: fl_def algebra_simps)
  then have "\<bar>fl v - v\<bar> = \<bar>of_int (rhe (v / ?u)) - v / ?u\<bar> * ?u"
    using upos by (simp add: abs_mult)
  also have "\<dots> \<le> 1 / 2 * ?u"
    using rhe_error[of "v / ?u"] upos by (intro mult_right_mono) simp_all
  also have "\<dots> = 2 powi (?e + 52) / 2 ^ 53"
    by (simp add: power_int_add)
  also have "\<dots> \<le> \<bar>v\<bar> / 2 ^ 53"
    using ulp_exp_lower[OF False] by (simp add: divide_right_mono)
  finally show ?thesis .
qed

lemma fl_pos_iff: "0 < fl v \<longleftrightarrow> 0 < v"
proof -
  have "\<bar>v\<bar> / 2 ^ 53 < \<bar>v\<bar>" if "v \<noteq> 0"
    using that by (simp add: field_simps)
  then show ?thesis using fl_error[of v] by (cases "v = 0") (auto simp: fl_def abs_if split: if_splits)
qed

lemma fl_le_0_iff: "fl v \<le> 0 \<longleftrightarrow> v \<le> 0"
  using fl_pos_iff[of v] by linarith

lemma fl_bounds:
  assumes "0 < v"
  shows "v * (1 - 1 / 2 ^ 53) \<le> fl v" "fl v \<le> v * (1 + 1 / 2 ^ 53)"
  using fl_error[of v] assms by (simp_all add: abs_if algebra_simps split: if_splits)

lemma fl_quarter_pi: "4 / 10 < fl (pi / 4)" "fl (pi / 4) < 11 / 10"
  using fl_bounds[of "pi / 4"] pi_ge_two pi_less_4 by (simp_all add: field_simps)

lemma fl_three_quarter_pi: "14 / 10 < fl (3 * pi / 4)" "fl (3 * pi / 4) < 31 / 10"
  using fl_bounds[of "3 * pi / 4"] pi_ge_two pi_less_4 by (simp_all add: field_simps)

section \<open>The unit box cut by the plane x = 0\<close>

lemma planeX0: "fromPointAndNormal (Vec3 0 0 0) (Vec3 1 0 0) = \<lparr>normal = Vec3 1 0 0, plane_d = 0\<rparr>"
  by (simp add: fromPointAndNormal_def new_Plane_def vec_ops js_arith EPSILON_val Let_def)

lemma unitBox_distances0:
  "distances unitBox \<lparr>normal = Vec3 1 0 0, plane_d = 0\<rparr> =
     [- (1 / 2), 1 / 2, 1 / 2, - (1 / 2), - (1 / 2), 1 / 2, 1 / 2, - (1 / 2)]"
  unfolding distances_def unitBox_distances by (simp add: js_arith)

lemma unitBox_classifications0:
  "classifications unitBox \<lparr>normal = Vec3 1 0 0, plane_d = 0\<rparr> =
     [INSIDE, OUTSIDE, OUTSIDE, INSIDE, INSIDE, OUTSIDE, OUTSIDE, INSIDE]"
  unfolding classifications_def unitBox_distances0 by (simp add: classify_def EPSILON_val)

lemma unitBox_copyInside:
  "copyInside
     [Vec3 (- (1 / 2)) (- (1 / 2)) (- (1 / 2)), Vec3 (1 / 2) (- (1 / 2)) (- (1 / 2)),
      Vec3 (1 / 2) (1 / 2) (- (1 / 2)), Vec3 (- (1 / 2)) (1 / 2) (- (1 / 2)),
      Vec3 (- (1 / 2)) (- (1 / 2)) (1 / 2), Vec3 (1 / 2) (- (1 / 2)) (1 / 2),
      Vec3 (1 / 2) (1 / 2) (1 / 2), Vec3 (- (1 / 2)) (1 / 2) (1 / 2)]
     [INSIDE, OUTSIDE, OUTSIDE, INSIDE, INSIDE, OUTSIDE, OUTSIDE, INSIDE] =
   ([0 \<mapsto> 0, 3 \<mapsto> 1, 4 \<mapsto> 2, 7 \<mapsto> 3],
    [Vec3 (- (1 / 2)) (- (1 / 2)) (- (1 / 2)), Vec3 (- (1 / 2)) (1 / 2) (- (1 / 2)),
     Vec3 (- (1 / 2)) (- (1 / 2)) (1 / 2), Vec3 (- (1 / 2)) (1 / 2) (1 / 2)])"
  by (simp add: copyInside_def copy_step_def eval_nat_numeral)

lemma unitBox_rebuild:
  "rebuild unitBox \<lparr>normal = Vec3 1 0 0, plane_d = 0\<rparr> =
     \<lparr>newVertices = vertices halfBox,
      edgeIntersections = [(2, 3) \<mapsto> 4, (0, 1) \<mapsto> 5, (4, 5) \<mapsto> 6, (6, 7) \<mapsto> 7],
      capEdges = [(4, 3, 2), (5, 0, 1), (6, 4, 5), (7, 7, 6), (5, 0, 1), (6, 4, 5), (4, 3, 2),
                  (7, 7, 6)],
      newFaces = [[Some 0, Some 1, Some 4, Some 5], [Some 2, Some 6, Some 7, Some 3],
                  [Some 0, Some 5, Some 6, Some 2], [Some 4, Some 1, Some 3, Some 7],
                  [Some 0, Some 2, Some 3, Some 1]]\<rparr>"
  unfolding rebuild_def Let_def unitBox_distances0 unitBox_classifications0 unitBox_vertices
    unitBox_faces unitBox_copyInside prod.case
  by (simp add: cut_eval js_arith Let_def halfBox_def) (simp add: eval_nat_numeral)


lemma atan2_diagonal:
  assumes "0 < c"
  shows "atan2 c c = pi / 4" "atan2 (- c) c = - (pi / 4)"
    "atan2 c (- c) = 3 * pi / 4" "atan2 (- c) (- c) = - (3 * pi / 4)"
  using assms by (simp_all add: atan2_def arctan_one arctan_minus)

lemma sort_four_angles:
  fixes f :: "nat \<Rightarrow> real"
  assumes "f a = fl (3 * pi / 4)" "f b = - fl (3 * pi / 4)" "f c = - fl (pi / 4)"
    "f d = fl (pi / 4)"
  shows "sort_cmp (\<lambda>u w. fsub (f u) (f w)) [a, b, c, d] = [b, c, d, a]"
proof -
  have "\<not> fl (3 * pi / 4) - - fl (3 * pi / 4) \<le> 0"
    "\<not> fl (3 * pi / 4) - - fl (pi / 4) \<le> 0"
    "\<not> fl (3 * pi / 4) - fl (pi / 4) \<le> 0"
    "- fl (3 * pi / 4) - - fl (pi / 4) \<le> 0"
    "- fl (pi / 4) - fl (pi / 4) \<le> 0"
    using fl_quarter_pi fl_three_quarter_pi by linarith+
  then show ?thesis
    by (simp only: sort_cmp_def fsub_def fl_le_0_iff assms foldr.simps insert_cmp.simps
        o_apply id_apply if_True if_False)
qed

lemma halfBox_cap_center:
  "cap_center (vertices halfBox) [4, 5, 6, 7] = Vec3 0 0 0"
  by (simp add: cap_center_def halfBox_def js_arith)

lemma halfBox_cap_angle:
  "cap_angle (vertices halfBox) \<lparr>normal = Vec3 1 0 0, plane_d = 0\<rparr> (Vec3 0 0 0) 4 = fl (3 * pi / 4)"
  "cap_angle (vertices halfBox) \<lparr>normal = Vec3 1 0 0, plane_d = 0\<rparr> (Vec3 0 0 0) 5 = - fl (3 * pi / 4)"
  "cap_angle (vertices halfBox) \<lparr>normal = Vec3 1 0 0, plane_d = 0\<rparr> (Vec3 0 0 0) 6 = - fl (pi / 4)"
  "cap_angle (vertices halfBox) \<lparr>normal = Vec3 1 0 0, plane_d = 0\<rparr> (Vec3 0 0 0) 7 = fl (pi / 4)"
  by (simp_all add: cap_angle_def halfBox_def vec_ops js_arith EPSILON_val Math_atan2_def
      atan2_diagonal)

lemma unitBox_cap:
  "buildCapFace (capEdges (rebuild unitBox \<lparr>normal = Vec3 1 0 0, plane_d = 0\<rparr>))
     (newVertices (rebuild unitBox \<lparr>normal = Vec3 1 0 0, plane_d = 0\<rparr>))
     \<lparr>normal = Vec3 1 0 0, plane_d = 0\<rparr> = Some [5, 6, 7, 4]"
  unfolding unitBox_rebuild
  by (simp add: buildCapFace_def halfBox_cap_center sort_four_angles[OF halfBox_cap_angle])

lemma unitBox_cut:
  "cutWithPlane unitBox \<lparr>normal = Vec3 1 0 0, plane_d = 0\<rparr> = Inr halfBox"
proof -
  have "hasOutside unitBox \<lparr>normal = Vec3 1 0 0, plane_d = 0\<rparr>"
    "hasInside unitBox \<lparr>normal = Vec3 1 0 0, plane_d = 0\<rparr>"
    by (simp_all add: hasOutside_def hasInside_def unitBox_classifications0)
  then show ?thesis
    unfolding cutWithPlane_def Let_def unitBox_cap
    by (simp add: unitBox_rebuild defined_face_def) (simp add: halfBox_def)
qed

lemma halfBox_volume: "getVolume halfBox = Inr (1 / 2 - 1 / 2 ^ 54)"
  by (simp add: getVolume_def halfBox_def fan_def tetra_step_def elem_def vec_ops js_arith)

text \<open>
  C2, as amended. \<open>cutWithPlane\<close> applied to the box of
  \<open>createBox(-0.5, -0.5, -0.5, 0.5, 0.5, 0.5)\<close> and the plane of normal \<open>(1, 0, 0)\<close>
  through the origin yields a polyhedron with exactly 8 vertices, whose vertex set is the
  corner set of the box \<open>[-0.5, 0] \<times> [-0.5, 0.5] \<times> [-0.5, 0.5]\<close>, and whose \<open>getVolume\<close>
  is the binary64 number \<open>0.49999999999999994 = 1/2 - 2 powi (-54)\<close>, within
  \<open>2 powi (-53)\<close> of 0.5.
\<close>

theorem unit_box_cut:
  "cutWithPlane unitBox (fromPointAndNormal (Vec3 0 0 0) (Vec3 1 0 0)) = Inr halfBox \<and>
   length (vertices halfBox) = 8 \<and>
   set (vertices halfBox) =
     (\<lambda>(a, b, c). Vec3 a b c) ` ({- (1 / 2), 0} \<times> {- (1 / 2), 1 / 2} \<times> {- (1 / 2), 1 / 2}) \<and>
   getVolume halfBox = Inr (1 / 2 - 1 / 2 ^ 54) \<and>
   \<bar>(1 / 2 - 1 / 2 ^ 54) - 1 / 2 :: real\<bar> \<le> 1 / 2 ^ 53"
proof -
  have "set (vertices halfBox) =
     (\<lambda>(a, b, c). Vec3 a b c) ` ({- (1 / 2), 0} \<times> {- (1 / 2), 1 / 2} \<times> {- (1 / 2), 1 / 2})"
    by (auto simp: halfBox_def)
  moreover have "length (vertices halfBox) = 8"
    by (simp add: halfBox_def)
  ultimately show ?thesis
    by (simp add: planeX0 unitBox_cut halfBox_volume)
qed

text \<open>
  C2, as stated, has the volume equal to 0.5. The terms \<open>v0.dot(v1.cross(v2)) / 6\<close> are
  rounded quotients: eight are \<open>0.25 / 6 = 0.041666666666666664\<close>, two are
  \<open>0.5 / 6 = 0.08333333333333333\<close> and the two of the cap face are 0. The running sum
  is \<open>0.24999999999999997\<close> after six of them and \<open>0.49999999999999994\<close> at the end.
\<close>

lemma quarter_by_six:
  "fdiv (1 / 4) 6 = 6004799503160661 / 144115188075855872" "fdiv (1 / 4) 6 < 1 / 24"
  by (simp_all add: js_arith)

text \<open>The counterexample to C2 as stated.\<close>

theorem unit_box_cut_volume_not_half:
  "cutWithPlane unitBox (fromPointAndNormal (Vec3 0 0 0) (Vec3 1 0 0)) = Inr halfBox \<and>
   getVolume halfBox \<noteq> Inr (1 / 2)"
  by (simp add: planeX0 unitBox_cut halfBox_volume)

section \<open>Two seeds\<close>

lemma sqrt4: "sqrt 4 = 2"
  using real_sqrt_abs[of 2] by simp

lemma bisectorAB:
  "perpendicularBisector (Vec3 (- 1) 0 0) (Vec3 1 0 0) = \<lparr>normal = Vec3 1 0 0, plane_d = 0\<rparr>"
  by (simp add: perpendicularBisector_def fromPointAndNormal_def new_Plane_def vec_ops js_arith
      EPSILON_val Let_def sqrt4)

lemma bisectorBA:
  "perpendicularBisector (Vec3 1 0 0) (Vec3 (- 1) 0 0) = \<lparr>normal = Vec3 (- 1) 0 0, plane_d = 0\<rparr>"
  by (simp add: perpendicularBisector_def fromPointAndNormal_def new_Plane_def vec_ops js_arith
      EPSILON_val Let_def sqrt4)

lemma box4_vertices:
  "vertices box4 =
     [Vec3 (- 2) (- 2) (- 2), Vec3 2 (- 2) (- 2), Vec3 2 2 (- 2), Vec3 (- 2) 2 (- 2),
      Vec3 (- 2) (- 2) 2, Vec3 2 (- 2) 2, Vec3 2 2 2, Vec3 (- 2) 2 2]"
  by (simp add: box4_def createBox_def)

lemma box4_faces:
  "faces box4 = [[0, 3, 2, 1], [4, 5, 6, 7], [0, 1, 5, 4],
                 [2, 3, 7, 6], [0, 4, 7, 3], [1, 2, 6, 5]]"
  by (simp add: box4_def createBox_def)

lemma box4_distancesA:
  "distances box4 \<lparr>normal = Vec3 1 0 0, plane_d = 0\<rparr> = [- 2, 2, 2, - 2, - 2, 2, 2, - 2]"
  by (simp add: distances_def box4_vertices signedDistance_def vec_ops js_arith)

lemma box4_distancesB:
  "distances box4 \<lparr>normal = Vec3 (- 1) 0 0, plane_d = 0\<rparr> = [2, - 2, - 2, 2, 2, - 2, - 2, 2]"
  by (simp add: distances_def box4_vertices signedDistance_def vec_ops js_arith)

lemma box4_classificationsA:
  "classifications box4 \<lparr>normal = Vec3 1 0 0, plane_d = 0\<rparr> =
     [INSIDE, OUTSIDE, OUTSIDE, INSIDE, INSIDE, OUTSIDE, OUTSIDE, INSIDE]"
  unfolding classifications_def box4_distancesA by (simp add: classify_def EPSILON_val)

lemma box4_classificationsB:
  "classifications box4 \<lparr>normal = Vec3 (- 1) 0 0, plane_d = 0\<rparr> =
     [OUTSIDE, INSIDE, INSIDE, OUTSIDE, OUTSIDE, INSIDE, INSIDE, OUTSIDE]"
  unfolding classifications_def box4_distancesB by (simp add: classify_def EPSILON_val)

lemma box4_copyInsideA:
  "copyInside
     [Vec3 (- 2) (- 2) (- 2), Vec3 2 (- 2) (- 2), Vec3 2 2 (- 2), Vec3 (- 2) 2 (- 2),
      Vec3 (- 2) (- 2) 2, Vec3 2 (- 2) 2, Vec3 2 2 2, Vec3 (- 2) 2 2]
     [INSIDE, OUTSIDE, OUTSIDE, INSIDE, INSIDE, OUTSIDE, OUTSIDE, INSIDE] =
   ([0 \<mapsto> 0, 3 \<mapsto> 1, 4 \<mapsto> 2, 7 \<mapsto> 3],
    [Vec3 (- 2) (- 2) (- 2), Vec3 (- 2) 2 (- 2), Vec3 (- 2) (- 2) 2, Vec3 (- 2) 2 2])"
  by (simp add: copyInside_def copy_step_def eval_nat_numeral)

lemma box4_copyInsideB:
  "copyInside
     [Vec3 (- 2) (- 2) (- 2), Vec3 2 (- 2) (- 2), Vec3 2 2 (- 2), Vec3 (- 2) 2 (- 2),
      Vec3 (- 2) (- 2) 2, Vec3 2 (- 2) 2, Vec3 2 2 2, Vec3 (- 2) 2 2]
     [OUTSIDE, INSIDE, INSIDE, OUTSIDE, OUTSIDE, INSIDE, INSIDE, OUTSIDE] =
   ([1 \<mapsto> 0, 2 \<mapsto> 1, 5 \<mapsto> 2, 6 \<mapsto> 3],
    [Vec3 2 (- 2) (- 2), Vec3 2 2 (- 2), Vec3 2 (- 2) 2, Vec3 2 2 2])"
  by (simp add: copyInside_def copy_step_def eval_nat_numeral)

lemma box4_rebuildA:
  "rebuild box4 \<lparr>normal = Vec3 1 0 0, plane_d = 0\<rparr> =
     \<lparr>newVertices = vertices cellA,
      edgeIntersections = [(2, 3) \<mapsto> 4, (0, 1) \<mapsto> 5, (4, 5) \<mapsto> 6, (6, 7) \<mapsto> 7],
      capEdges = [(4, 3, 2), (5, 0, 1), (6, 4, 5), (7, 7, 6), (5, 0, 1), (6, 4, 5), (4, 3, 2),
                  (7, 7, 6)],
      newFaces = [[Some 0, Some 1, Some 4, Some 5], [Some 2, Some 6, Some 7, Some 3],
                  [Some 0, Some 5, Some 6, Some 2], [Some 4, Some 1, Some 3, Some 7],
                  [Some 0, Some 2, Some 3, Some 1]]\<rparr>"
  unfolding rebuild_def Let_def box4_distancesA box4_classificationsA box4_vertices
    box4_faces box4_copyInsideA prod.case
  by (simp add: cut_eval js_arith Let_def cellA_def) (simp add: eval_nat_numeral)

lemma box4_rebuildB:
  "rebuild box4 \<lparr>normal = Vec3 (- 1) 0 0, plane_d = 0\<rparr> =
     \<lparr>newVertices = vertices cellB,
      edgeIntersections = [(2, 3) \<mapsto> 4, (0, 1) \<mapsto> 5, (4, 5) \<mapsto> 6, (6, 7) \<mapsto> 7],
      capEdges = [(4, 2, 3), (5, 1, 0), (6, 5, 4), (7, 6, 7), (5, 1, 0), (6, 5, 4), (4, 2, 3),
                  (7, 6, 7)],
      newFaces = [[Some 4, Some 1, Some 0, Some 5], [Some 6, Some 2, Some 3, Some 7],
                  [Some 5, Some 0, Some 2, Some 6], [Some 1, Some 4, Some 7, Some 3],
                  [Some 0, Some 1, Some 3, Some 2]]\<rparr>"
  unfolding rebuild_def Let_def box4_distancesB box4_classificationsB box4_vertices
    box4_faces box4_copyInsideB prod.case
  by (simp add: cut_eval js_arith Let_def cellB_def) (simp add: eval_nat_numeral)

lemma sort_four_angles_rev:
  fixes f :: "nat \<Rightarrow> real"
  assumes "f a = fl (pi / 4)" "f b = - fl (pi / 4)" "f c = - fl (3 * pi / 4)"
    "f d = fl (3 * pi / 4)"
  shows "sort_cmp (\<lambda>u w. fsub (f u) (f w)) [a, b, c, d] = [c, b, a, d]"
proof -
  have "- fl (3 * pi / 4) - fl (3 * pi / 4) \<le> 0"
    "\<not> - fl (pi / 4) - - fl (3 * pi / 4) \<le> 0"
    "- fl (pi / 4) - fl (3 * pi / 4) \<le> 0"
    "\<not> fl (pi / 4) - - fl (3 * pi / 4) \<le> 0"
    "\<not> fl (pi / 4) - - fl (pi / 4) \<le> 0"
    "fl (pi / 4) - fl (3 * pi / 4) \<le> 0"
    using fl_quarter_pi fl_three_quarter_pi by linarith+
  then show ?thesis
    by (simp only: sort_cmp_def fsub_def fl_le_0_iff assms foldr.simps insert_cmp.simps
        o_apply id_apply if_True if_False)
qed

lemma cellA_cap_center: "cap_center (vertices cellA) [4, 5, 6, 7] = Vec3 0 0 0"
  by (simp add: cap_center_def cellA_def js_arith)

lemma cellB_cap_center: "cap_center (vertices cellB) [4, 5, 6, 7] = Vec3 0 0 0"
  by (simp add: cap_center_def cellB_def js_arith)

lemma cellA_cap_angle:
  "cap_angle (vertices cellA) \<lparr>normal = Vec3 1 0 0, plane_d = 0\<rparr> (Vec3 0 0 0) 4 = fl (3 * pi / 4)"
  "cap_angle (vertices cellA) \<lparr>normal = Vec3 1 0 0, plane_d = 0\<rparr> (Vec3 0 0 0) 5 = - fl (3 * pi / 4)"
  "cap_angle (vertices cellA) \<lparr>normal = Vec3 1 0 0, plane_d = 0\<rparr> (Vec3 0 0 0) 6 = - fl (pi / 4)"
  "cap_angle (vertices cellA) \<lparr>normal = Vec3 1 0 0, plane_d = 0\<rparr> (Vec3 0 0 0) 7 = fl (pi / 4)"
  by (simp_all add: cap_angle_def cellA_def vec_ops js_arith EPSILON_val Math_atan2_def
      atan2_diagonal)

lemma cellB_cap_angle:
  "cap_angle (vertices cellB) \<lparr>normal = Vec3 (- 1) 0 0, plane_d = 0\<rparr> (Vec3 0 0 0) 4 = fl (pi / 4)"
  "cap_angle (vertices cellB) \<lparr>normal = Vec3 (- 1) 0 0, plane_d = 0\<rparr> (Vec3 0 0 0) 5 = - fl (pi / 4)"
  "cap_angle (vertices cellB) \<lparr>normal = Vec3 (- 1) 0 0, plane_d = 0\<rparr> (Vec3 0 0 0) 6 = - fl (3 * pi / 4)"
  "cap_angle (vertices cellB) \<lparr>normal = Vec3 (- 1) 0 0, plane_d = 0\<rparr> (Vec3 0 0 0) 7 = fl (3 * pi / 4)"
  by (simp_all add: cap_angle_def cellB_def vec_ops js_arith EPSILON_val Math_atan2_def
      atan2_diagonal)

lemma box4_capA:
  "buildCapFace (capEdges (rebuild box4 \<lparr>normal = Vec3 1 0 0, plane_d = 0\<rparr>))
     (newVertices (rebuild box4 \<lparr>normal = Vec3 1 0 0, plane_d = 0\<rparr>))
     \<lparr>normal = Vec3 1 0 0, plane_d = 0\<rparr> = Some [5, 6, 7, 4]"
  unfolding box4_rebuildA
  by (simp add: buildCapFace_def cellA_cap_center sort_four_angles[OF cellA_cap_angle])

lemma box4_capB:
  "buildCapFace (capEdges (rebuild box4 \<lparr>normal = Vec3 (- 1) 0 0, plane_d = 0\<rparr>))
     (newVertices (rebuild box4 \<lparr>normal = Vec3 (- 1) 0 0, plane_d = 0\<rparr>))
     \<lparr>normal = Vec3 (- 1) 0 0, plane_d = 0\<rparr> = Some [6, 5, 4, 7]"
  unfolding box4_rebuildB
  by (simp add: buildCapFace_def cellB_cap_center sort_four_angles_rev[OF cellB_cap_angle])

lemma box4_cutA: "cutWithPlane box4 \<lparr>normal = Vec3 1 0 0, plane_d = 0\<rparr> = Inr cellA"
proof -
  have "hasOutside box4 \<lparr>normal = Vec3 1 0 0, plane_d = 0\<rparr>"
    "hasInside box4 \<lparr>normal = Vec3 1 0 0, plane_d = 0\<rparr>"
    by (simp_all add: hasOutside_def hasInside_def box4_classificationsA)
  then show ?thesis
    unfolding cutWithPlane_def Let_def box4_capA
    by (simp add: box4_rebuildA defined_face_def) (simp add: cellA_def)
qed

lemma box4_cutB: "cutWithPlane box4 \<lparr>normal = Vec3 (- 1) 0 0, plane_d = 0\<rparr> = Inr cellB"
proof -
  have "hasOutside box4 \<lparr>normal = Vec3 (- 1) 0 0, plane_d = 0\<rparr>"
    "hasInside box4 \<lparr>normal = Vec3 (- 1) 0 0, plane_d = 0\<rparr>"
    by (simp_all add: hasOutside_def hasInside_def box4_classificationsB)
  then show ?thesis
    unfolding cutWithPlane_def Let_def box4_capB
    by (simp add: box4_rebuildB defined_face_def) (simp add: cellB_def)
qed

lemma cellA_volume: "getVolume cellA = Inr (32 - 1 / 2 ^ 48)"
  by (simp add: getVolume_def cellA_def fan_def tetra_step_def elem_def vec_ops js_arith)

lemma cellB_volume: "getVolume cellB = Inr (32 - 1 / 2 ^ 48)"
  by (simp add: getVolume_def cellB_def fan_def tetra_step_def elem_def vec_ops js_arith)

lemma box4_not_allInside:
  "\<not> allInside box4 \<lparr>normal = Vec3 1 0 0, plane_d = 0\<rparr>"
  "\<not> allInside box4 \<lparr>normal = Vec3 (- 1) 0 0, plane_d = 0\<rparr>"
  using box4_distancesA box4_distancesB
  by (simp_all add: allInside_def distances_def EPSILON_val)

lemma seedCellA:
  "seedCell [seedA, seedB] \<lparr>bounds_min = Vec3 (- 2) (- 2) (- 2), bounds_max = Vec3 2 2 2\<rparr> seedA
     = Inr cellA"
  using box4_not_allInside
  by (simp add: seedCell_def otherSeeds_def sort_cmp_def seedA_def seedB_def bisectorAB
      box4_def[symmetric] box4_cutA box4_vertices)

lemma seedCellB:
  "seedCell [seedA, seedB] \<lparr>bounds_min = Vec3 (- 2) (- 2) (- 2), bounds_max = Vec3 2 2 2\<rparr> seedB
     = Inr cellB"
  using box4_not_allInside
  by (simp add: seedCell_def otherSeeds_def sort_cmp_def seedA_def seedB_def bisectorBA
      box4_def[symmetric] box4_cutB box4_vertices)

lemma two_cells:
  "computeVoronoiCells [seedA, seedB]
     \<lparr>bounds_min = Vec3 (- 2) (- 2) (- 2), bounds_max = Vec3 2 2 2\<rparr> 0 =
   Inr [\<lparr>cell_seed = seedA, cell_poly = cellA\<rparr>, \<lparr>cell_seed = seedB, cell_poly = cellB\<rparr>]"
  by (simp add: computeVoronoiCells_def js_arith seedCellA seedCellB)
     (simp add: cellA_def cellB_def)

text \<open>
  C1, as amended. For the two seeds \<open>(-1, 0, 0)\<close> and \<open>(1, 0, 0)\<close>, the bounding box
  from \<open>(-2, -2, -2)\<close> to \<open>(2, 2, 2)\<close> and padding 0, \<open>computeVoronoiCells\<close> returns
  exactly two cells, one per seed: the halves of the box on either side of \<open>x = 0\<close>. The
  \<open>getVolume\<close> of each is the binary64 number \<open>31.999999999999996 = 32 - 2 powi (-48)\<close>,
  within \<open>2 powi (-47)\<close> of 32.
\<close>

theorem two_seeds_cells:
  "computeVoronoiCells [seedA, seedB]
     \<lparr>bounds_min = Vec3 (- 2) (- 2) (- 2), bounds_max = Vec3 2 2 2\<rparr> 0 =
     Inr [\<lparr>cell_seed = seedA, cell_poly = cellA\<rparr>, \<lparr>cell_seed = seedB, cell_poly = cellB\<rparr>] \<and>
   getVolume cellA = Inr (32 - 1 / 2 ^ 48) \<and>
   getVolume cellB = Inr (32 - 1 / 2 ^ 48) \<and>
   \<bar>(32 - 1 / 2 ^ 48) - 32 :: real\<bar> \<le> 1 / 2 ^ 47"
  by (simp add: two_cells cellA_volume cellB_volume)

text \<open>
  C1, as stated, has both volumes equal to 32. In each cell eight of the terms
  \<open>v0.dot(v1.cross(v2)) / 6\<close> are \<open>16 / 6 = 2.6666666666666665\<close>, two are
  \<open>32 / 6 = 5.333333333333333\<close> and the two of the cap face are 0; the running sum is
  \<open>15.999999999999998\<close> after six of them and \<open>31.999999999999996\<close> at the end.
\<close>

theorem two_seeds_volume_not_32:
  "computeVoronoiCells [seedA, seedB]
     \<lparr>bounds_min = Vec3 (- 2) (- 2) (- 2), bounds_max = Vec3 2 2 2\<rparr> 0 =
     Inr [\<lparr>cell_seed = seedA, cell_poly = cellA\<rparr>, \<lparr>cell_seed = seedB, cell_poly = cellB\<rparr>] \<and>
   getVolume cellA \<noteq> Inr 32 \<and> getVolume cellB \<noteq> Inr 32"
  by (simp add: two_cells cellA_volume cellB_volume)

section \<open>Cutting twice with one plane\<close>

text \<open>
  C4, as amended. When no vertex has a signed distance above \<open>EPSILON\<close>, \<open>cutWithPlane\<close>
  leaves the vertex list and the face list as they are. Consequently a second cut with
  the same plane leaves the result of a cut unchanged whenever no vertex of that result
  has a signed distance above \<open>EPSILON\<close>, and in particular when the first cut took one
  of its early exits (nothing OUTSIDE, or nothing INSIDE and the polyhedron emptied).
\<close>

theorem cut_noop_and_idempotent:
  "(\<not> (\<exists>v \<in> set (vertices p). EPSILON < signedDistance pl v) \<longrightarrow> cutWithPlane p pl = Inr p) \<and>
   (cutWithPlane p pl = Inr q \<and> \<not> (\<exists>v \<in> set (vertices q). EPSILON < signedDistance pl v) \<longrightarrow>
      cutWithPlane q pl = Inr q) \<and>
   (cutWithPlane p pl = Inr q \<and> \<not> (hasOutside p pl \<and> hasInside p pl) \<longrightarrow>
      cutWithPlane q pl = Inr q)"
proof (intro conjI impI)
  assume "\<not> (\<exists>v \<in> set (vertices p). EPSILON < signedDistance pl v)"
  then show "cutWithPlane p pl = Inr p"
    by (simp add: cutWithPlane_def hasOutside_iff)
next
  assume "cutWithPlane p pl = Inr q \<and> \<not> (\<exists>v \<in> set (vertices q). EPSILON < signedDistance pl v)"
  then show "cutWithPlane q pl = Inr q"
    by (simp add: cutWithPlane_def hasOutside_iff)
next
  assume a: "cutWithPlane p pl = Inr q \<and> \<not> (hasOutside p pl \<and> hasInside p pl)"
  show "cutWithPlane q pl = Inr q"
  proof (cases "hasOutside p pl")
    case False
    then have "q = p" using a by (simp add: cutWithPlane_def)
    then show ?thesis using False by (simp add: cutWithPlane_def)
  next
    case True
    then have "q = \<lparr>vertices = [], faces = []\<rparr>" using a by (auto simp: cutWithPlane_def)
    then show ?thesis by (simp add: cutWithPlane_def hasOutside_iff)
  qed
qed

theorem cut_noop_and_idempotent_witness:
  "\<not> (\<exists>v \<in> set (vertices unitBox). EPSILON < signedDistance (new_Plane (Vec3 1 0 0) (- 1)) v) \<and>
   cutWithPlane unitBox (new_Plane (Vec3 1 0 0) (- 1)) = Inr unitBox \<and>
   hasOutside unitBox (new_Plane (Vec3 1 0 0) 1) \<and>
   \<not> hasInside unitBox (new_Plane (Vec3 1 0 0) 1) \<and>
   cutWithPlane unitBox (new_Plane (Vec3 1 0 0) 1) = Inr \<lparr>vertices = [], faces = []\<rparr> \<and>
   cutWithPlane \<lparr>vertices = [], faces = []\<rparr> (new_Plane (Vec3 1 0 0) 1) =
     Inr \<lparr>vertices = [], faces = []\<rparr>"
proof -
  have "\<not> (\<exists>dd \<in> set (map (signedDistance (new_Plane (Vec3 1 0 0) (- 1))) (vertices unitBox)).
          EPSILON < dd)"
    unfolding planeX unitBox_distances by (simp add: js_arith EPSILON_val)
  then have h1: "\<not> (\<exists>v \<in> set (vertices unitBox).
                      EPSILON < signedDistance (new_Plane (Vec3 1 0 0) (- 1)) v)"
    by simp
  have c: "classifications unitBox (new_Plane (Vec3 1 0 0) 1) =
             [OUTSIDE, OUTSIDE, OUTSIDE, OUTSIDE, OUTSIDE, OUTSIDE, OUTSIDE, OUTSIDE]"
    unfolding classifications_def distances_def planeX unitBox_distances
    by (simp add: js_arith classify_def EPSILON_val)
  have h2: "hasOutside unitBox (new_Plane (Vec3 1 0 0) 1)"
    and h3: "\<not> hasInside unitBox (new_Plane (Vec3 1 0 0) 1)"
    by (simp_all add: hasOutside_def hasInside_def c)
  have e: "cutWithPlane unitBox (new_Plane (Vec3 1 0 0) 1) = Inr \<lparr>vertices = [], faces = []\<rparr>"
    using h2 h3 by (simp add: cutWithPlane_def)
  note t = cut_noop_and_idempotent[of unitBox "new_Plane (Vec3 1 0 0) (- 1)"]
  note u = cut_noop_and_idempotent[of unitBox "new_Plane (Vec3 1 0 0) 1"
      "\<lparr>vertices = [], faces = []\<rparr>"]
  have "cutWithPlane unitBox (new_Plane (Vec3 1 0 0) (- 1)) = Inr unitBox"
    using t h1 by blast
  moreover have "cutWithPlane \<lparr>vertices = [], faces = []\<rparr> (new_Plane (Vec3 1 0 0) 1) =
     Inr \<lparr>vertices = [], faces = []\<rparr>"
    using u e h3 by blast
  ultimately show ?thesis using h1 h2 h3 e by blast
qed

subsection \<open>A second cut that changes the polyhedron\<close>

lemma wideBox_vertices:
  "vertices wideBox =
     [Vec3 (- 900000) (- 1) (- 1), Vec3 500000 (- 1) (- 1), Vec3 500000 1 (- 1),
      Vec3 (- 900000) 1 (- 1), Vec3 (- 900000) (- 1) 1, Vec3 500000 (- 1) 1,
      Vec3 500000 1 1, Vec3 (- 900000) 1 1]"
  by (simp add: wideBox_def createBox_def)

lemma wideBox_faces:
  "faces wideBox = [[0, 3, 2, 1], [4, 5, 6, 7], [0, 1, 5, 4],
                    [2, 3, 7, 6], [0, 4, 7, 3], [1, 2, 6, 5]]"
  by (simp add: wideBox_def createBox_def)

lemma wideBox_distances:
  "distances wideBox \<lparr>normal = Vec3 1 0 0, plane_d = 0\<rparr> =
     [- 900000, 500000, 500000, - 900000, - 900000, 500000, 500000, - 900000]"
  by (simp add: distances_def wideBox_vertices signedDistance_def vec_ops js_arith)

lemma wideBox_classifications:
  "classifications wideBox \<lparr>normal = Vec3 1 0 0, plane_d = 0\<rparr> =
     [INSIDE, OUTSIDE, OUTSIDE, INSIDE, INSIDE, OUTSIDE, OUTSIDE, INSIDE]"
  unfolding classifications_def wideBox_distances by (simp add: classify_def EPSILON_val)

lemma wideBox_copyInside:
  "copyInside
     [Vec3 (- 900000) (- 1) (- 1), Vec3 500000 (- 1) (- 1), Vec3 500000 1 (- 1),
      Vec3 (- 900000) 1 (- 1), Vec3 (- 900000) (- 1) 1, Vec3 500000 (- 1) 1,
      Vec3 500000 1 1, Vec3 (- 900000) 1 1]
     [INSIDE, OUTSIDE, OUTSIDE, INSIDE, INSIDE, OUTSIDE, OUTSIDE, INSIDE] =
   ([0 \<mapsto> 0, 3 \<mapsto> 1, 4 \<mapsto> 2, 7 \<mapsto> 3],
    [Vec3 (- 900000) (- 1) (- 1), Vec3 (- 900000) 1 (- 1), Vec3 (- 900000) (- 1) 1,
     Vec3 (- 900000) 1 1])"
  by (simp add: copyInside_def copy_step_def eval_nat_numeral)

lemma wideBox_rebuild:
  "rebuild wideBox \<lparr>normal = Vec3 1 0 0, plane_d = 0\<rparr> =
     \<lparr>newVertices = vertices wideCut,
      edgeIntersections = [(2, 3) \<mapsto> 4, (0, 1) \<mapsto> 5, (4, 5) \<mapsto> 6, (6, 7) \<mapsto> 7],
      capEdges = [(4, 3, 2), (5, 0, 1), (6, 4, 5), (7, 7, 6), (5, 0, 1), (6, 4, 5), (4, 3, 2),
                  (7, 7, 6)],
      newFaces = [[Some 0, Some 1, Some 4, Some 5], [Some 2, Some 6, Some 7, Some 3],
                  [Some 0, Some 5, Some 6, Some 2], [Some 4, Some 1, Some 3, Some 7],
                  [Some 0, Some 2, Some 3, Some 1]]\<rparr>"
  unfolding rebuild_def Let_def wideBox_distances wideBox_classifications wideBox_vertices
    wideBox_faces wideBox_copyInside prod.case
  by (simp add: cut_eval js_arith Let_def wideCut_def) (simp add: eval_nat_numeral)

lemma wideCut_cap_center:
  "cap_center (vertices wideCut) [4, 5, 6, 7] = Vec3 (1 / 17179869184) 0 0"
  by (simp add: cap_center_def wideCut_def js_arith)

lemma wideCut_cap_angle:
  "cap_angle (vertices wideCut) \<lparr>normal = Vec3 1 0 0, plane_d = 0\<rparr> (Vec3 (1 / 17179869184) 0 0) 4 = fl (3 * pi / 4)"
  "cap_angle (vertices wideCut) \<lparr>normal = Vec3 1 0 0, plane_d = 0\<rparr> (Vec3 (1 / 17179869184) 0 0) 5 = - fl (3 * pi / 4)"
  "cap_angle (vertices wideCut) \<lparr>normal = Vec3 1 0 0, plane_d = 0\<rparr> (Vec3 (1 / 17179869184) 0 0) 6 = - fl (pi / 4)"
  "cap_angle (vertices wideCut) \<lparr>normal = Vec3 1 0 0, plane_d = 0\<rparr> (Vec3 (1 / 17179869184) 0 0) 7 = fl (pi / 4)"
  by (simp_all add: cap_angle_def wideCut_def vec_ops js_arith EPSILON_val Math_atan2_def
      atan2_diagonal)

lemma wideBox_cap:
  "buildCapFace (capEdges (rebuild wideBox \<lparr>normal = Vec3 1 0 0, plane_d = 0\<rparr>))
     (newVertices (rebuild wideBox \<lparr>normal = Vec3 1 0 0, plane_d = 0\<rparr>))
     \<lparr>normal = Vec3 1 0 0, plane_d = 0\<rparr> = Some [5, 6, 7, 4]"
  unfolding wideBox_rebuild
  by (simp add: buildCapFace_def wideCut_cap_center Let_def
      sort_four_angles[OF wideCut_cap_angle])

lemma wideBox_cut: "cutWithPlane wideBox \<lparr>normal = Vec3 1 0 0, plane_d = 0\<rparr> = Inr wideCut"
proof -
  have "hasOutside wideBox \<lparr>normal = Vec3 1 0 0, plane_d = 0\<rparr>"
    "hasInside wideBox \<lparr>normal = Vec3 1 0 0, plane_d = 0\<rparr>"
    by (simp_all add: hasOutside_def hasInside_def wideBox_classifications)
  then show ?thesis
    unfolding cutWithPlane_def Let_def wideBox_cap
    by (simp add: wideBox_rebuild defined_face_def) (simp add: wideCut_def)
qed

lemma wideCut_vertices:
  "vertices wideCut =
     [Vec3 (- 900000) (- 1) (- 1), Vec3 (- 900000) 1 (- 1), Vec3 (- 900000) (- 1) 1,
      Vec3 (- 900000) 1 1, Vec3 (1 / 2 ^ 33) 1 (- 1), Vec3 0 (- 1) (- 1),
      Vec3 (1 / 2 ^ 33) (- 1) 1, Vec3 0 1 1]"
  by (simp add: wideCut_def)

lemma wideCut_faces:
  "faces wideCut = [[0, 1, 4, 5], [2, 6, 7, 3], [0, 5, 6, 2], [4, 1, 3, 7], [0, 2, 3, 1],
                    [5, 6, 7, 4]]"
  by (simp add: wideCut_def)

lemma wideCut_distances:
  "distances wideCut \<lparr>normal = Vec3 1 0 0, plane_d = 0\<rparr> =
     [- 900000, - 900000, - 900000, - 900000, 1 / 2 ^ 33, 0, 1 / 2 ^ 33, 0]"
  by (simp add: distances_def wideCut_def signedDistance_def vec_ops js_arith)

lemma wideCut_classifications:
  "classifications wideCut \<lparr>normal = Vec3 1 0 0, plane_d = 0\<rparr> =
     [INSIDE, INSIDE, INSIDE, INSIDE, OUTSIDE, ON, OUTSIDE, ON]"
  unfolding classifications_def wideCut_distances by (simp add: classify_def EPSILON_val)

lemma wideCut_copyInside:
  "copyInside
     [Vec3 (- 900000) (- 1) (- 1), Vec3 (- 900000) 1 (- 1), Vec3 (- 900000) (- 1) 1,
      Vec3 (- 900000) 1 1, Vec3 (1 / 2 ^ 33) 1 (- 1), Vec3 0 (- 1) (- 1),
      Vec3 (1 / 2 ^ 33) (- 1) 1, Vec3 0 1 1]
     [INSIDE, INSIDE, INSIDE, INSIDE, OUTSIDE, ON, OUTSIDE, ON] =
   ([0 \<mapsto> 0, 1 \<mapsto> 1, 2 \<mapsto> 2, 3 \<mapsto> 3, 5 \<mapsto> 4, 7 \<mapsto> 5],
    [Vec3 (- 900000) (- 1) (- 1), Vec3 (- 900000) 1 (- 1), Vec3 (- 900000) (- 1) 1,
     Vec3 (- 900000) 1 1, Vec3 0 (- 1) (- 1), Vec3 0 1 1])"
  by (simp add: copyInside_def copy_step_def eval_nat_numeral)

lemma wideCut_rebuild:
  "rebuild wideCut \<lparr>normal = Vec3 1 0 0, plane_d = 0\<rparr> =
     \<lparr>newVertices = vertices wideCutAgain,
      edgeIntersections = [(1, 4) \<mapsto> 6, (2, 6) \<mapsto> 7],
      capEdges = [(6, 1, 4), (4, 5, 4), (7, 2, 6), (5, 7, 6), (4, 5, 6), (7, 2, 6), (6, 1, 4),
                  (5, 7, 4), (4, 5, 6), (5, 7, 6), (5, 7, 4), (4, 5, 4)],
      newFaces = [[Some 0, Some 1, Some 6, Some 4], [Some 2, Some 7, Some 5, Some 3],
                  [Some 0, Some 4, Some 7, Some 2], [Some 6, Some 1, Some 3, Some 5],
                  [Some 0, Some 2, Some 3, Some 1]]\<rparr>"
  unfolding rebuild_def Let_def wideCut_distances wideCut_classifications wideCut_vertices
    wideCut_faces wideCut_copyInside prod.case
  by (simp add: cut_eval js_arith Let_def wideCutAgain_def) (simp add: eval_nat_numeral)

lemma wideCutAgain_cap_center:
  "cap_center (vertices wideCutAgain) [6, 4, 7, 5] = Vec3 0 0 0"
  by (simp add: cap_center_def wideCutAgain_def js_arith)

lemma wideCutAgain_cap_angle:
  "cap_angle (vertices wideCutAgain) \<lparr>normal = Vec3 1 0 0, plane_d = 0\<rparr> (Vec3 0 0 0) 6 = fl (3 * pi / 4)"
  "cap_angle (vertices wideCutAgain) \<lparr>normal = Vec3 1 0 0, plane_d = 0\<rparr> (Vec3 0 0 0) 4 = - fl (3 * pi / 4)"
  "cap_angle (vertices wideCutAgain) \<lparr>normal = Vec3 1 0 0, plane_d = 0\<rparr> (Vec3 0 0 0) 7 = - fl (pi / 4)"
  "cap_angle (vertices wideCutAgain) \<lparr>normal = Vec3 1 0 0, plane_d = 0\<rparr> (Vec3 0 0 0) 5 = fl (pi / 4)"
  by (simp_all add: cap_angle_def wideCutAgain_def vec_ops js_arith EPSILON_val Math_atan2_def
      atan2_diagonal)

lemma wideCut_cap:
  "buildCapFace (capEdges (rebuild wideCut \<lparr>normal = Vec3 1 0 0, plane_d = 0\<rparr>))
     (newVertices (rebuild wideCut \<lparr>normal = Vec3 1 0 0, plane_d = 0\<rparr>))
     \<lparr>normal = Vec3 1 0 0, plane_d = 0\<rparr> = Some [4, 7, 5, 6]"
  unfolding wideCut_rebuild
  by (simp add: buildCapFace_def wideCutAgain_cap_center
      sort_four_angles[OF wideCutAgain_cap_angle])

lemma wideCut_cut:
  "cutWithPlane wideCut \<lparr>normal = Vec3 1 0 0, plane_d = 0\<rparr> = Inr wideCutAgain"
proof -
  have "hasOutside wideCut \<lparr>normal = Vec3 1 0 0, plane_d = 0\<rparr>"
    "hasInside wideCut \<lparr>normal = Vec3 1 0 0, plane_d = 0\<rparr>"
    by (simp_all add: hasOutside_def hasInside_def wideCut_classifications)
  then show ?thesis
    unfolding cutWithPlane_def Let_def wideCut_cap
    by (simp add: wideCut_rebuild defined_face_def) (simp add: wideCutAgain_def)
qed

text \<open>
  C4, as stated, has a second cut with the same plane leave the result of every cut
  unchanged. The box from \<open>(-900000, -1, -1)\<close> to \<open>(500000, 1, 1)\<close> is cut at \<open>x = 0\<close>;
  two of the four interpolated vertices get \<open>x = 2 powi (-33)\<close> by rounding, which is above
  \<open>EPSILON\<close>, so they are OUTSIDE for the second cut, which replaces them.
\<close>

theorem second_cut_changes:
  "cutWithPlane wideBox (new_Plane (Vec3 1 0 0) 0) = Inr wideCut \<and>
   cutWithPlane wideCut (new_Plane (Vec3 1 0 0) 0) = Inr wideCutAgain \<and>
   wideCutAgain \<noteq> wideCut \<and>
   signedDistance (new_Plane (Vec3 1 0 0) 0) (vertices wideCut ! 4) = 1 / 2 ^ 33 \<and>
   EPSILON < 1 / 2 ^ 33"
  unfolding planeX
  by (simp add: wideBox_cut wideCut_cut)
     (simp add: wideCut_def wideCutAgain_def signedDistance_def vec_ops js_arith EPSILON_val)

section \<open>The vertices on cut edges\<close>

lemma getEdgeKey_commute: "getEdgeKey a b = getEdgeKey b a"
  by (simp add: getEdgeKey_def)

subsection \<open>The copies of the kept vertices\<close>

lemma copy_fold_nth:
  assumes "fold (copy_step vs cs) [0..<n] (Map.empty, []) = (vm, nv)"
  shows "\<forall>i k. vm i = Some k \<longrightarrow> nv ! k = vs ! i"
  using assms
proof (induction n arbitrary: vm nv)
  case 0
  then show ?case by auto
next
  case (Suc n)
  obtain vm0 nv0 where f: "fold (copy_step vs cs) [0..<n] (Map.empty, []) = (vm0, nv0)"
    by (cases "fold (copy_step vs cs) [0..<n] (Map.empty, [])") auto
  note ih = Suc.IH[OF f]
  have lt: "\<And>i k. vm0 i = Some k \<Longrightarrow> k < length nv0"
    using copy_fold[OF f] by blast
  from Suc.prems f have s: "copy_step vs cs n (vm0, nv0) = (vm, nv)"
    by simp
  show ?case
  proof (cases "cs ! n \<noteq> OUTSIDE")
    case True
    with s have e: "vm = vm0(n \<mapsto> length nv0)" "nv = nv0 @ [vs ! n]"
      by (auto simp: copy_step_def)
    show ?thesis
      using ih lt unfolding e
      by (auto simp: nth_append)
  next
    case False
    with s have e: "vm = vm0" "nv = nv0"
      by (auto simp: copy_step_def)
    show ?thesis
      using ih unfolding e by simp
  qed
qed

lemma copyInside_nth:
  assumes "copyInside vs cs = (vm, nv)" "vm i = Some k"
  shows "nv ! k = vs ! i"
  using copy_fold_nth[OF assms(1)[unfolded copyInside_def]] assms(2) by blast

subsection \<open>The cap edges in closed form\<close>

lemma cap_entry_mono:
  assumes "C \<subseteq>\<^sub>m C'" "straddle cs a b \<Longrightarrow> getEdgeKey a b \<in> dom C"
  shows "cap_entry vm C cs (a, b) = cap_entry vm C' cs (a, b)"
proof (cases "straddle cs a b")
  case True
  then have "C' (getEdgeKey a b) = C (getEdgeKey a b)"
    using assms by (auto simp: map_le_def)
  then show ?thesis by (simp add: cap_entry_def)
next
  case False
  then show ?thesis by (simp add: cap_entry_def)
qed

lemma edge_step_cap:
  assumes step: "edge_step vs ds cs vm face i (st, nf) = (st', nf')"
  shows "capEdges st' =
           capEdges st @ cap_entry vm (edgeIntersections st') cs
                           (face ! i, face ! ((i + 1) mod length face))"
proof -
  let ?a = "face ! i"
  let ?b = "face ! ((i + 1) mod length face)"
  consider (str) "straddle cs ?a ?b"
    | (on_out) "elem cs ?a = Some ON" "elem cs ?b = Some OUTSIDE"
    | (out_on) "elem cs ?a = Some OUTSIDE" "elem cs ?b = Some ON"
    | (other) "\<not> straddle cs ?a ?b" "\<not> (elem cs ?a = Some ON \<and> elem cs ?b = Some OUTSIDE)"
        "\<not> (elem cs ?a = Some OUTSIDE \<and> elem cs ?b = Some ON)"
    by blast
  then show ?thesis
  proof cases
    case str
    obtain k st1 where g: "getOrCreateIntersection vs ds st ?a ?b = (k, st1)"
      by (cases "getOrCreateIntersection vs ds st ?a ?b") auto
    let ?cap = "if elem cs ?a = Some INSIDE then (k, ?a, ?b) else (k, ?b, ?a)"
    have r: "st' = st1\<lparr>capEdges := capEdges st1 @ [?cap]\<rparr>"
      using step unfolding edge_step_straddle[OF str g] by auto
    have "capEdges st1 = capEdges st \<and> edgeIntersections st1 (getEdgeKey ?a ?b) = Some k"
      using goc_cases[OF g] by auto
    then show ?thesis using str unfolding r by (simp add: cap_entry_def)
  next
    case on_out
    have r: "st' = (case vm ?a of
                      Some k \<Rightarrow> st\<lparr>capEdges := capEdges st @ [(k, ?a, ?b)]\<rparr> | None \<Rightarrow> st)"
      using step unfolding edge_step_on_outside[OF on_out] by auto
    have ns: "\<not> straddle cs ?a ?b" using on_out by (simp add: straddle_def)
    show ?thesis unfolding r using on_out ns
      by (simp add: cap_entry_def split: option.splits)
  next
    case out_on
    have r: "st' = (case vm ?b of
                      Some k \<Rightarrow> st\<lparr>capEdges := capEdges st @ [(k, ?b, ?a)]\<rparr> | None \<Rightarrow> st)"
      using step unfolding edge_step_outside_on[OF out_on] by auto
    have ns: "\<not> straddle cs ?a ?b" using out_on by (simp add: straddle_def)
    show ?thesis unfolding r using out_on ns
      by (simp add: cap_entry_def split: option.splits)
  next
    case other
    have r: "st' = st"
      using step unfolding edge_step_other[OF other] by auto
    show ?thesis unfolding r using other by (auto simp: cap_entry_def)
  qed
qed

lemma edge_fold_cap:
  assumes inv: "cut_inv p pl st"
    and cp: "copyInside (vertices p) (classifications p pl) = (vm, nv0)"
    and face: "face \<in> set (faces p)"
    and n: "n \<le> length face"
    and fold: "fold (edge_step (vertices p) (distances p pl) (classifications p pl) vm face)
                 [0..<n] (st, []) = (st', nf')"
  shows "capEdges st' =
           capEdges st @ concat (map (cap_entry vm (edgeIntersections st') (classifications p pl))
                                   (take n (consecutive face)))"
  using n fold
proof (induction n arbitrary: st' nf')
  case 0
  then show ?case by simp
next
  case (Suc n)
  let ?cs = "classifications p pl"
  let ?step = "edge_step (vertices p) (distances p pl) ?cs vm face"
  obtain st1 nf1 where f1: "fold ?step [0..<n] (st, []) = (st1, nf1)"
    by (cases "fold ?step [0..<n] (st, [])") auto
  have nlt: "n < length face" and nle: "n \<le> length face" using Suc.prems(1) by simp_all
  have ih: "capEdges st1 =
              capEdges st @ concat (map (cap_entry vm (edgeIntersections st1) ?cs)
                                      (take n (consecutive face)))"
    using Suc.IH[OF nle f1] .
  have pre: "cut_inv p pl st1"
    "\<And>ab. ab \<in> set (take n (consecutive face)) \<Longrightarrow> straddle ?cs (fst ab) (snd ab) \<Longrightarrow>
       getEdgeKey (fst ab) (snd ab) \<in> dom (edgeIntersections st1)"
    using edge_fold_inv[OF inv cp face nle f1] by auto
  have s: "?step n (st1, nf1) = (st', nf')"
    using Suc.prems(2) f1 by simp
  note e = edge_step_inv[OF pre(1) cp face_edges_member[OF face nlt] s]
  note c = edge_step_cap[OF s]
  have tk: "take (Suc n) (consecutive face) =
              take n (consecutive face) @ [(face ! n, face ! ((n + 1) mod length face))]"
    using nlt by (simp add: take_Suc_conv_app_nth length_consecutive consecutive_nth)
  have old: "map (cap_entry vm (edgeIntersections st1) ?cs) (take n (consecutive face)) =
             map (cap_entry vm (edgeIntersections st') ?cs) (take n (consecutive face))"
  proof (rule map_cong[OF refl])
    fix ab assume "ab \<in> set (take n (consecutive face))"
    then show "cap_entry vm (edgeIntersections st1) ?cs ab =
               cap_entry vm (edgeIntersections st') ?cs ab"
      using cap_entry_mono[OF e(2), of ?cs "fst ab" "snd ab" vm] pre(2)[of ab] by simp
  qed
  show ?case
    unfolding tk using c ih old by simp
qed

lemma face_step_cap:
  assumes inv: "cut_inv p pl st"
    and cp: "copyInside (vertices p) (classifications p pl) = (vm, nv0)"
    and face: "face \<in> set (faces p)"
    and st': "st' = face_step (vertices p) (distances p pl) (classifications p pl) vm face st"
  shows "capEdges st' =
           capEdges st @ concat (map (cap_entry vm (edgeIntersections st') (classifications p pl))
                                   (consecutive face))"
proof -
  let ?cs = "classifications p pl"
  let ?step = "edge_step (vertices p) (distances p pl) ?cs vm face"
  obtain st1 nf where f: "fold ?step [0..<length face] (st, []) = (st1, nf)"
    by (cases "fold ?step [0..<length face] (st, [])") auto
  have e: "capEdges st1 =
             capEdges st @ concat (map (cap_entry vm (edgeIntersections st1) ?cs)
                                     (consecutive face))"
    using edge_fold_cap[OF inv cp face le_refl f] by (simp add: length_consecutive)
  have r: "st' = (if 3 \<le> length nf then st1\<lparr>newFaces := newFaces st1 @ [nf]\<rparr> else st1)"
    by (simp add: st' face_step_def f)
  show ?thesis using e unfolding r by simp
qed

lemma faces_fold_cap:
  assumes inv: "cut_inv p pl st"
    and cp: "copyInside (vertices p) (classifications p pl) = (vm, nv0)"
    and sub: "set fs \<subseteq> set (faces p)"
  shows "capEdges (fold (face_step (vertices p) (distances p pl) (classifications p pl) vm) fs st) =
           capEdges st @
           concat (map (cap_entry vm
                    (edgeIntersections
                      (fold (face_step (vertices p) (distances p pl) (classifications p pl) vm)
                         fs st))
                    (classifications p pl)) (concat (map consecutive fs)))"
  using sub
proof (induction fs rule: rev_induct)
  case Nil
  then show ?case by simp
next
  case (snoc face fs)
  let ?cs = "classifications p pl"
  let ?fstep = "face_step (vertices p) (distances p pl) ?cs vm"
  let ?st1 = "fold ?fstep fs st"
  let ?st2 = "fold ?fstep (fs @ [face]) st"
  have face: "face \<in> set (faces p)" and fs: "set fs \<subseteq> set (faces p)"
    using snoc.prems by auto
  have ih: "capEdges ?st1 =
              capEdges st @ concat (map (cap_entry vm (edgeIntersections ?st1) ?cs)
                                      (concat (map consecutive fs)))"
    using snoc.IH[OF fs] .
  have pre: "cut_inv p pl ?st1"
    "\<And>f ab. f \<in> set fs \<Longrightarrow> ab \<in> set (consecutive f) \<Longrightarrow> straddle ?cs (fst ab) (snd ab) \<Longrightarrow>
       getEdgeKey (fst ab) (snd ab) \<in> dom (edgeIntersections ?st1)"
    using faces_fold_inv[OF inv cp fs] by auto
  have s2: "?st2 = ?fstep face ?st1" by simp
  note f = face_step_inv[OF pre(1) cp face s2]
  note c = face_step_cap[OF pre(1) cp face s2]
  have old: "map (cap_entry vm (edgeIntersections ?st1) ?cs) (concat (map consecutive fs)) =
             map (cap_entry vm (edgeIntersections ?st2) ?cs) (concat (map consecutive fs))"
  proof (rule map_cong[OF refl])
    fix ab assume "ab \<in> set (concat (map consecutive fs))"
    then obtain g where "g \<in> set fs" "ab \<in> set (consecutive g)" by auto
    then show "cap_entry vm (edgeIntersections ?st1) ?cs ab =
               cap_entry vm (edgeIntersections ?st2) ?cs ab"
      using cap_entry_mono[OF f(2), of ?cs "fst ab" "snd ab" vm] pre(2)[of g ab] by simp
  qed
  show ?case
    using c ih old by simp
qed

lemma rebuild_cap:
  "capEdges (rebuild p pl) =
     concat (map (cap_entry (fst (copyInside (vertices p) (classifications p pl)))
                    (edgeIntersections (rebuild p pl)) (classifications p pl))
               (face_edges p))"
proof -
  have cp: "copyInside (vertices p) (classifications p pl) =
              (fst (copyInside (vertices p) (classifications p pl)),
               snd (copyInside (vertices p) (classifications p pl)))"
    by simp
  show ?thesis
    using faces_fold_cap[OF cut_inv_init cp subset_refl, folded rebuild_fold]
    by (simp add: face_edges_def)
qed

subsection \<open>A pair with a vertex on the plane\<close>

lemma getEdgeKey_eq:
  "getEdgeKey a b = getEdgeKey c d \<Longrightarrow> (a = c \<and> b = d) \<or> (a = d \<and> b = c)"
  by (auto simp: getEdgeKey_def split: if_splits)

lemma on_pair_not_cached:
  assumes on: "elem (classifications p pl) a = Some ON \<or> elem (classifications p pl) b = Some ON"
  shows "edgeIntersections (rebuild p pl) (getEdgeKey a b) = None"
proof (rule ccontr)
  assume "edgeIntersections (rebuild p pl) (getEdgeKey a b) \<noteq> None"
  then have "getEdgeKey a b \<in> dom (edgeIntersections (rebuild p pl))" by blast
  then obtain cd where cd: "getEdgeKey a b = getEdgeKey (fst cd) (snd cd)"
    "straddle (classifications p pl) (fst cd) (snd cd)"
    using cut_invD(3)[OF rebuild_inv(1)[of p pl]] by blast
  from getEdgeKey_eq[OF cd(1)] cd(2) on show False
    by (auto simp: straddle_def)
qed

lemma on_vertex_copied:
  assumes on: "elem (classifications p pl) a = Some ON"
  shows "\<exists>k. fst (copyInside (vertices p) (classifications p pl)) a = Some k \<and>
             newVertices (rebuild p pl) ! k = vertices p ! a"
proof -
  let ?cs = "classifications p pl"
  have cp: "copyInside (vertices p) ?cs =
              (fst (copyInside (vertices p) ?cs), snd (copyInside (vertices p) ?cs))"
    by simp
  have a: "a < length (vertices p)" "?cs ! a \<noteq> OUTSIDE"
    using on length_classifications[of p pl] by (auto simp: elem_def split: if_splits)
  obtain k where k: "fst (copyInside (vertices p) ?cs) a = Some k"
    using copyInside_defined[OF cp a] by blast
  have lt: "k < length (snd (copyInside (vertices p) ?cs))"
    using copyInside_Some(1)[OF cp k] .
  have "newVertices (rebuild p pl) ! k =
          take (length (snd (copyInside (vertices p) ?cs))) (newVertices (rebuild p pl)) ! k"
    using lt by simp
  also have "\<dots> = snd (copyInside (vertices p) ?cs) ! k"
    using cut_invD(4)[OF rebuild_inv(1)[of p pl]] by simp
  also have "\<dots> = vertices p ! a"
    using copyInside_nth[OF cp k] .
  finally show ?thesis using k by blast
qed

subsection \<open>The unit box cut by a diagonal plane\<close>

text \<open>
  The square root is rounded like every other operation: \<open>Math_sqrt x\<close> is the multiple
  \<open>m * 2 powi e\<close> of 53 bits once \<open>x\<close> lies between the squares of its two
  neighbouring midpoints.
\<close>

lemma rhe_near:
  assumes "\<bar>t - of_int m\<bar> < 1 / 2"
  shows "rhe t = m"
proof -
  have a: "of_int m - 1 / 2 < t" "t < of_int m + 1 / 2" using assms by linarith+
  show ?thesis
  proof (cases "of_int m \<le> t")
    case True
    then have "\<lfloor>t\<rfloor> = m" using a by (intro floor_unique) linarith+
    then show ?thesis using a by (simp add: rhe_def)
  next
    case False
    then have f: "\<lfloor>t\<rfloor> = m - 1" using a by (intro floor_unique) (simp, linarith)+
    have "1 / 2 < t - of_int (m - 1)" using a by simp
    then show ?thesis unfolding rhe_def Let_def f by simp
  qed
qed

lemma Math_sqrt_eval:
  fixes m :: int
  assumes m: "4503599627370496 < m" "m < 9007199254740992"
    and lo: "((of_int m - 1 / 2) * 2 powi e)\<^sup>2 < x"
    and hi: "x < ((of_int m + 1 / 2) * 2 powi e)\<^sup>2"
  shows "Math_sqrt x = of_int m * 2 powi e"
proof -
  define u :: real where "u = 2 powi e"
  define r :: real where "r = of_int m"
  have p: "0 < u" by (simp add: u_def)
  have m1: "4503599627370496 + 1 \<le> m" and m2: "m + 1 \<le> 9007199254740992"
    using m by linarith+
  have "(of_int (4503599627370496 + 1) :: real) \<le> of_int m"
    using m1 by (rule iffD2[OF of_int_le_iff])
  moreover have "(of_int (m + 1) :: real) \<le> of_int 9007199254740992"
    using m2 by (rule iffD2[OF of_int_le_iff])
  ultimately have mr: "4503599627370497 \<le> r" "r + 1 \<le> 9007199254740992"
    by (simp_all add: r_def)
  have l: "(r - 1 / 2) * u < sqrt x"
    using lo unfolding u_def r_def by (rule real_less_rsqrt)
  have nn: "0 \<le> (r + 1 / 2) * u"
    using mr p by (intro mult_nonneg_nonneg) linarith+
  have h: "sqrt x < (r + 1 / 2) * u"
    using nn hi unfolding u_def r_def by (rule real_less_lsqrt)
  have l': "r - 1 / 2 < sqrt x / u"
    using l p by (simp add: pos_less_divide_eq)
  have h': "sqrt x / u < r + 1 / 2"
    using h p by (simp add: pos_divide_less_eq)
  have rr: "rhe (sqrt x / u) = m"
    using l' h' unfolding r_def by (intro rhe_near) linarith
  have lo2: "4503599627370496 * u \<le> (r - 1 / 2) * u"
    using mr(1) p by (intro mult_right_mono) linarith+
  have hi2: "(r + 1 / 2) * u \<le> 9007199254740992 * u"
    using mr(2) p by (intro mult_right_mono) linarith+
  have pos: "0 < sqrt x"
    using l lo2 p by (smt (verit) mult_pos_pos)
  have e1: "(2::real) powi (e + 52) = 4503599627370496 * u"
    unfolding u_def by (simp add: power_int_add)
  have e2: "(2::real) powi (e + 53) = 9007199254740992 * u"
    unfolding u_def by (simp add: power_int_add)
  have b1: "2 powi (e + 52) \<le> \<bar>sqrt x\<bar>"
    unfolding e1 using l lo2 pos by linarith
  have b2: "\<bar>sqrt x\<bar> < 2 powi (e + 53)"
    unfolding e2 using h hi2 pos by linarith
  show ?thesis
    unfolding Math_sqrt_def fl_eval[OF b1 b2] using rr by (simp add: u_def)
qed

lemma sqrt_two: "Math_sqrt 2 = 6369051672525773 / 4503599627370496"
  using Math_sqrt_eval[of 6369051672525773 "- 52" 2]
  by (simp add: power2_eq_square)

lemma sqrt_near_one:
  "Math_sqrt (4503599627370495 / 4503599627370496) = 9007199254740991 / 9007199254740992"
  using Math_sqrt_eval[of 9007199254740991 "- 53" "4503599627370495 / 4503599627370496"]
  by (simp add: power2_eq_square)


lemmas js_exact = fadd_def fsub_def fmul_def fdiv_def fl_literal fl_at_eval

lemma diagonal_length: "length_vec (Vec3 1 1 0) = 6369051672525773 / 4503599627370496"
  by (simp add: length_vec_def js_exact sqrt_two)

lemma diagonal_normalize:
  "normalize_vec (Vec3 1 1 0) =
     Vec3 (1592262918131443 / 2251799813685248) (1592262918131443 / 2251799813685248) 0"
  unfolding normalize_vec_def Let_def diagonal_length
  by (simp add: scale_def js_exact EPSILON_val)

lemma diagonal_length_again:
  "length_vec (Vec3 (1592262918131443 / 2251799813685248) (1592262918131443 / 2251799813685248) 0) =
     9007199254740991 / 9007199254740992"
  by (simp add: length_vec_def js_exact sqrt_near_one)

lemma diagonal_normalize_again:
  "normalize_vec (Vec3 (1592262918131443 / 2251799813685248) (1592262918131443 / 2251799813685248) 0) =
     Vec3 (6369051672525773 / 9007199254740992) (6369051672525773 / 9007199254740992) 0"
  unfolding normalize_vec_def Let_def diagonal_length_again
  by (simp add: scale_def js_exact EPSILON_val)

lemma diagonalPlane_val:
  "diagonalPlane =
     \<lparr>normal = Vec3 (6369051672525773 / 9007199254740992) (6369051672525773 / 9007199254740992) 0,
      plane_d = 0\<rparr>"
  unfolding diagonalPlane_def fromPointAndNormal_def new_Plane_def Let_def diagonal_normalize
    diagonal_normalize_again
  by (simp add: dot_def js_exact)

lemma unitBox_diagonal_distances:
  "distances unitBox diagonalPlane =
     [- (6369051672525773 / 9007199254740992), 0, 6369051672525773 / 9007199254740992, 0,
      - (6369051672525773 / 9007199254740992), 0, 6369051672525773 / 9007199254740992, 0]"
  unfolding distances_def diagonalPlane_val unitBox_vertices
  by (simp add: signedDistance_def dot_def js_exact)

lemma unitBox_diagonal_classifications:
  "classifications unitBox diagonalPlane = [INSIDE, ON, OUTSIDE, ON, INSIDE, ON, OUTSIDE, ON]"
  unfolding classifications_def unitBox_diagonal_distances by (simp add: classify_def EPSILON_val)

lemma unitBox_diagonal_copyInside:
  "copyInside
     [Vec3 (- (1 / 2)) (- (1 / 2)) (- (1 / 2)), Vec3 (1 / 2) (- (1 / 2)) (- (1 / 2)),
      Vec3 (1 / 2) (1 / 2) (- (1 / 2)), Vec3 (- (1 / 2)) (1 / 2) (- (1 / 2)),
      Vec3 (- (1 / 2)) (- (1 / 2)) (1 / 2), Vec3 (1 / 2) (- (1 / 2)) (1 / 2),
      Vec3 (1 / 2) (1 / 2) (1 / 2), Vec3 (- (1 / 2)) (1 / 2) (1 / 2)]
     [INSIDE, ON, OUTSIDE, ON, INSIDE, ON, OUTSIDE, ON] =
   ([0 \<mapsto> 0, 1 \<mapsto> 1, 3 \<mapsto> 2, 4 \<mapsto> 3, 5 \<mapsto> 4, 7 \<mapsto> 5],
    [Vec3 (- (1 / 2)) (- (1 / 2)) (- (1 / 2)), Vec3 (1 / 2) (- (1 / 2)) (- (1 / 2)),
     Vec3 (- (1 / 2)) (1 / 2) (- (1 / 2)), Vec3 (- (1 / 2)) (- (1 / 2)) (1 / 2),
     Vec3 (1 / 2) (- (1 / 2)) (1 / 2), Vec3 (- (1 / 2)) (1 / 2) (1 / 2)])"
  by (simp add: copyInside_def copy_step_def eval_nat_numeral)

lemma unitBox_diagonal_rebuild:
  "rebuild unitBox diagonalPlane =
     \<lparr>newVertices =
        [Vec3 (- (1 / 2)) (- (1 / 2)) (- (1 / 2)), Vec3 (1 / 2) (- (1 / 2)) (- (1 / 2)),
         Vec3 (- (1 / 2)) (1 / 2) (- (1 / 2)), Vec3 (- (1 / 2)) (- (1 / 2)) (1 / 2),
         Vec3 (1 / 2) (- (1 / 2)) (1 / 2), Vec3 (- (1 / 2)) (1 / 2) (1 / 2)],
      edgeIntersections = Map.empty,
      capEdges = [(2, 3, 2), (1, 1, 2), (4, 5, 6), (5, 7, 6), (2, 3, 2), (5, 7, 6), (1, 1, 2),
                  (4, 5, 6)],
      newFaces = [[Some 0, Some 2, Some 1], [Some 3, Some 4, Some 5],
                  [Some 0, Some 1, Some 4, Some 3], [Some 0, Some 3, Some 5, Some 2]]\<rparr>"
  unfolding rebuild_def Let_def unitBox_diagonal_distances unitBox_diagonal_classifications
    unitBox_vertices unitBox_faces unitBox_diagonal_copyInside prod.case
  by (simp add: cut_eval Let_def)

subsection \<open>The claim\<close>

text \<open>
  C6, as amended. In the rebuild of \<open>cutWithPlane\<close>, where consecutive vertices of a face
  straddle the plane (one INSIDE, one OUTSIDE, in either order) the new face receives the
  cached intersection vertex of that edge: every rebuilt face is \<open>rebuilt_face\<close> read off
  the final cache. The cache is keyed by the unordered pair of the original indices; its
  keys are exactly the straddling edges of the faces; it maps them one-to-one onto the
  indices of the vertices added after the copied ones; and each of these vertices is the
  linear interpolation \<open>intersection\<close>, with \<open>t = d1 / (d1 - d2)\<close>, of the end points
  of its edge in the order in which a face first visits them. So every cut edge has
  exactly one new vertex, shared by all faces with that edge, and nothing else is
  created. The cap edges are the list \<open>cap_entry\<close> gives pair by pair: a straddling
  pair records its cached vertex, and an (ON, OUTSIDE) or (OUTSIDE, ON) pair has no cache
  entry and no interpolated point but records the copy of its ON vertex, the new vertex
  at \<^verbatim>\<open>vertexMap.get\<close> of that vertex, which is the original vertex itself.
\<close>

theorem cut_edge_vertices:
  fixes p :: polyhedron and pl :: plane
  defines "st \<equiv> rebuild p pl"
    and "cs \<equiv> classifications p pl"
    and "vertexMap \<equiv> fst (copyInside (vertices p) (classifications p pl))"
    and "kept \<equiv> snd (copyInside (vertices p) (classifications p pl))"
  shows "newFaces st =
           filter (\<lambda>f. 3 \<le> length f)
             (map (rebuilt_face vertexMap (edgeIntersections st) cs) (faces p)) \<and>
         dom (edgeIntersections st) =
           {getEdgeKey a b | a b. (a, b) \<in> set (face_edges p) \<and> straddle cs a b} \<and>
         (\<forall>a b. getEdgeKey a b = getEdgeKey b a) \<and>
         bij_betw (\<lambda>key. the (edgeIntersections st key)) (dom (edgeIntersections st))
           {length kept..<length (newVertices st)} \<and>
         take (length kept) (newVertices st) = kept \<and>
         (\<forall>key \<in> dom (edgeIntersections st). \<exists>ab \<in> set (face_edges p).
            key = getEdgeKey (fst ab) (snd ab) \<and> straddle cs (fst ab) (snd ab) \<and>
            newVertices st ! the (edgeIntersections st key) =
              intersection (vertices p) (distances p pl) (fst ab) (snd ab)) \<and>
         capEdges st =
           concat (map (cap_entry vertexMap (edgeIntersections st) cs) (face_edges p)) \<and>
         (\<forall>ab \<in> set (face_edges p).
            elem cs (fst ab) = Some ON \<and> elem cs (snd ab) = Some OUTSIDE \<longrightarrow>
            edgeIntersections st (getEdgeKey (fst ab) (snd ab)) = None \<and>
            (\<exists>k. vertexMap (fst ab) = Some k \<and> newVertices st ! k = vertices p ! fst ab \<and>
                 (k, fst ab, snd ab) \<in> set (capEdges st))) \<and>
         (\<forall>ab \<in> set (face_edges p).
            elem cs (fst ab) = Some OUTSIDE \<and> elem cs (snd ab) = Some ON \<longrightarrow>
            edgeIntersections st (getEdgeKey (fst ab) (snd ab)) = None \<and>
            (\<exists>k. vertexMap (snd ab) = Some k \<and> newVertices st ! k = vertices p ! snd ab \<and>
                 (k, snd ab, fst ab) \<in> set (capEdges st)))"
proof -
  note inv = rebuild_inv(1)[of p pl]
  note d = cut_invD[OF inv]
  have dom: "dom (edgeIntersections st) =
           {getEdgeKey a b | a b. (a, b) \<in> set (face_edges p) \<and> straddle cs a b}"
  proof (intro set_eqI iffI)
    fix key assume "key \<in> dom (edgeIntersections st)"
    then obtain ab where "ab \<in> set (face_edges p)" "key = getEdgeKey (fst ab) (snd ab)"
      "straddle cs (fst ab) (snd ab)"
      using d(3)[of key] unfolding st_def cs_def by blast
    then have "(fst ab, snd ab) \<in> set (face_edges p) \<and> straddle cs (fst ab) (snd ab) \<and>
               key = getEdgeKey (fst ab) (snd ab)"
      by simp
    then show "key \<in> {getEdgeKey a b | a b. (a, b) \<in> set (face_edges p) \<and> straddle cs a b}"
      by blast
  next
    fix key assume "key \<in> {getEdgeKey a b | a b. (a, b) \<in> set (face_edges p) \<and> straddle cs a b}"
    then obtain a b where "(a, b) \<in> set (face_edges p)" "straddle cs a b" "key = getEdgeKey a b"
      by blast
    then show "key \<in> dom (edgeIntersections st)"
      using rebuild_inv(3)[of "(a, b)" p pl] unfolding st_def cs_def by simp
  qed
  have bij: "bij_betw (\<lambda>key. the (edgeIntersections st key)) (dom (edgeIntersections st))
           {length kept..<length (newVertices st)}"
    unfolding bij_betw_def st_def kept_def using d(1) d(2) by simp
  have cap: "capEdges st =
           concat (map (cap_entry vertexMap (edgeIntersections st) cs) (face_edges p))"
    unfolding st_def cs_def vertexMap_def by (rule rebuild_cap)
  have on_out_pair: "edgeIntersections st (getEdgeKey a b) = None \<and>
            (\<exists>k. vertexMap a = Some k \<and> newVertices st ! k = vertices p ! a \<and>
                 (k, a, b) \<in> set (capEdges st))"
    if ab: "(a, b) \<in> set (face_edges p)"
      and c: "elem cs a = Some ON" "elem cs b = Some OUTSIDE" for a b
  proof -
    have n: "edgeIntersections st (getEdgeKey a b) = None"
      unfolding st_def using on_pair_not_cached[of p pl a b] c
      unfolding cs_def by simp
    obtain k where k: "vertexMap a = Some k" "newVertices st ! k = vertices p ! a"
      using on_vertex_copied[of p pl a] c unfolding st_def cs_def vertexMap_def by blast
    have "cap_entry vertexMap (edgeIntersections st) cs (a, b) = [(k, a, b)]"
      using c k(1) by (simp add: cap_entry_def straddle_def)
    then have "(k, a, b) \<in> set (capEdges st)"
      unfolding cap using ab by (auto intro!: bexI[of _ "(a, b)"])
    then show ?thesis using n k by blast
  qed
  have out_on_pair: "edgeIntersections st (getEdgeKey a b) = None \<and>
            (\<exists>k. vertexMap b = Some k \<and> newVertices st ! k = vertices p ! b \<and>
                 (k, b, a) \<in> set (capEdges st))"
    if ab: "(a, b) \<in> set (face_edges p)"
      and c: "elem cs a = Some OUTSIDE" "elem cs b = Some ON" for a b
  proof -
    have n: "edgeIntersections st (getEdgeKey a b) = None"
      unfolding st_def using on_pair_not_cached[of p pl a b] c
      unfolding cs_def by simp
    obtain k where k: "vertexMap b = Some k" "newVertices st ! k = vertices p ! b"
      using on_vertex_copied[of p pl b] c unfolding st_def cs_def vertexMap_def by blast
    have "cap_entry vertexMap (edgeIntersections st) cs (a, b) = [(k, b, a)]"
      using c k(1) by (simp add: cap_entry_def straddle_def)
    then have "(k, b, a) \<in> set (capEdges st)"
      unfolding cap using ab by (auto intro!: bexI[of _ "(a, b)"])
    then show ?thesis using n k by blast
  qed
  have on_out: "\<forall>ab \<in> set (face_edges p).
            elem cs (fst ab) = Some ON \<and> elem cs (snd ab) = Some OUTSIDE \<longrightarrow>
            edgeIntersections st (getEdgeKey (fst ab) (snd ab)) = None \<and>
            (\<exists>k. vertexMap (fst ab) = Some k \<and> newVertices st ! k = vertices p ! fst ab \<and>
                 (k, fst ab, snd ab) \<in> set (capEdges st))"
  proof (intro ballI impI)
    fix ab
    assume "ab \<in> set (face_edges p)"
      and "elem cs (fst ab) = Some ON \<and> elem cs (snd ab) = Some OUTSIDE"
    then show "edgeIntersections st (getEdgeKey (fst ab) (snd ab)) = None \<and>
            (\<exists>k. vertexMap (fst ab) = Some k \<and> newVertices st ! k = vertices p ! fst ab \<and>
                 (k, fst ab, snd ab) \<in> set (capEdges st))"
      using on_out_pair[of "fst ab" "snd ab"] by simp
  qed
  have out_on: "\<forall>ab \<in> set (face_edges p).
            elem cs (fst ab) = Some OUTSIDE \<and> elem cs (snd ab) = Some ON \<longrightarrow>
            edgeIntersections st (getEdgeKey (fst ab) (snd ab)) = None \<and>
            (\<exists>k. vertexMap (snd ab) = Some k \<and> newVertices st ! k = vertices p ! snd ab \<and>
                 (k, snd ab, fst ab) \<in> set (capEdges st))"
  proof (intro ballI impI)
    fix ab
    assume "ab \<in> set (face_edges p)"
      and "elem cs (fst ab) = Some OUTSIDE \<and> elem cs (snd ab) = Some ON"
    then show "edgeIntersections st (getEdgeKey (fst ab) (snd ab)) = None \<and>
            (\<exists>k. vertexMap (snd ab) = Some k \<and> newVertices st ! k = vertices p ! snd ab \<and>
                 (k, snd ab, fst ab) \<in> set (capEdges st))"
      using out_on_pair[of "fst ab" "snd ab"] by simp
  qed
  have first: "newFaces st =
           filter (\<lambda>f. 3 \<le> length f)
             (map (rebuilt_face vertexMap (edgeIntersections st) cs) (faces p))"
    using rebuild_inv(2)[of p pl] unfolding st_def cs_def vertexMap_def .
  have tk: "take (length kept) (newVertices st) = kept"
    using d(4) unfolding st_def kept_def .
  have pts: "\<forall>key \<in> dom (edgeIntersections st). \<exists>ab \<in> set (face_edges p).
            key = getEdgeKey (fst ab) (snd ab) \<and> straddle cs (fst ab) (snd ab) \<and>
            newVertices st ! the (edgeIntersections st key) =
              intersection (vertices p) (distances p pl) (fst ab) (snd ab)"
    using d(3) unfolding st_def cs_def by blast
  have comm: "\<forall>a b. getEdgeKey a b = getEdgeKey b a"
    using getEdgeKey_commute by blast
  show ?thesis
    using first dom comm bij tk pts cap on_out out_on by (intro conjI)
qed

theorem cut_edge_vertices_witness:
  "getEdgeKey 1 0 \<in> dom (edgeIntersections (rebuild unitBox (new_Plane (Vec3 1 0 0) 0))) \<and>
   (\<exists>ab \<in> set (face_edges unitBox).
      getEdgeKey 1 0 = getEdgeKey (fst ab) (snd ab) \<and>
      straddle (classifications unitBox (new_Plane (Vec3 1 0 0) 0)) (fst ab) (snd ab) \<and>
      newVertices (rebuild unitBox (new_Plane (Vec3 1 0 0) 0)) !
        the (edgeIntersections (rebuild unitBox (new_Plane (Vec3 1 0 0) 0)) (getEdgeKey 1 0)) =
      intersection (vertices unitBox) (distances unitBox (new_Plane (Vec3 1 0 0) 0))
        (fst ab) (snd ab)) \<and>
   (3, 2) \<in> set (face_edges unitBox) \<and>
   elem (classifications unitBox diagonalPlane) 3 = Some ON \<and>
   elem (classifications unitBox diagonalPlane) 2 = Some OUTSIDE \<and>
   edgeIntersections (rebuild unitBox diagonalPlane) (getEdgeKey 3 2) = None \<and>
   (\<exists>k. fst (copyInside (vertices unitBox) (classifications unitBox diagonalPlane)) 3 = Some k \<and>
        newVertices (rebuild unitBox diagonalPlane) ! k = vertices unitBox ! 3 \<and>
        (k, 3, 2) \<in> set (capEdges (rebuild unitBox diagonalPlane))) \<and>
   (2, 1) \<in> set (face_edges unitBox) \<and>
   elem (classifications unitBox diagonalPlane) 1 = Some ON \<and>
   edgeIntersections (rebuild unitBox diagonalPlane) (getEdgeKey 2 1) = None \<and>
   (\<exists>k. fst (copyInside (vertices unitBox) (classifications unitBox diagonalPlane)) 1 = Some k \<and>
        newVertices (rebuild unitBox diagonalPlane) ! k = vertices unitBox ! 1 \<and>
        (k, 1, 2) \<in> set (capEdges (rebuild unitBox diagonalPlane)))"
proof -
  have h: "getEdgeKey 1 0 \<in> dom (edgeIntersections (rebuild unitBox (new_Plane (Vec3 1 0 0) 0)))"
    unfolding planeX unitBox_rebuild by (simp add: getEdgeKey_def)
  have e: "(3, 2) \<in> set (face_edges unitBox)" "(2, 1) \<in> set (face_edges unitBox)"
    by (simp_all add: face_edges_def consecutive_def unitBox_faces)
  have c: "elem (classifications unitBox diagonalPlane) 3 = Some ON"
    "elem (classifications unitBox diagonalPlane) 2 = Some OUTSIDE"
    "elem (classifications unitBox diagonalPlane) 1 = Some ON"
    unfolding unitBox_diagonal_classifications by (simp_all add: elem_def)
  note x = cut_edge_vertices[of unitBox "new_Plane (Vec3 1 0 0) 0"]
  note y = cut_edge_vertices[of unitBox diagonalPlane]
  have a1: "\<exists>ab \<in> set (face_edges unitBox).
      getEdgeKey 1 0 = getEdgeKey (fst ab) (snd ab) \<and>
      straddle (classifications unitBox (new_Plane (Vec3 1 0 0) 0)) (fst ab) (snd ab) \<and>
      newVertices (rebuild unitBox (new_Plane (Vec3 1 0 0) 0)) !
        the (edgeIntersections (rebuild unitBox (new_Plane (Vec3 1 0 0) 0)) (getEdgeKey 1 0)) =
      intersection (vertices unitBox) (distances unitBox (new_Plane (Vec3 1 0 0) 0))
        (fst ab) (snd ab)"
    using x h by blast
  have a2: "edgeIntersections (rebuild unitBox diagonalPlane) (getEdgeKey 3 2) = None \<and>
   (\<exists>k. fst (copyInside (vertices unitBox) (classifications unitBox diagonalPlane)) 3 = Some k \<and>
        newVertices (rebuild unitBox diagonalPlane) ! k = vertices unitBox ! 3 \<and>
        (k, 3, 2) \<in> set (capEdges (rebuild unitBox diagonalPlane)))"
    using y e(1) c(1,2) by fastforce
  have a3: "edgeIntersections (rebuild unitBox diagonalPlane) (getEdgeKey 2 1) = None \<and>
   (\<exists>k. fst (copyInside (vertices unitBox) (classifications unitBox diagonalPlane)) 1 = Some k \<and>
        newVertices (rebuild unitBox diagonalPlane) ! k = vertices unitBox ! 1 \<and>
        (k, 1, 2) \<in> set (capEdges (rebuild unitBox diagonalPlane)))"
    using y e(2) c(2,3) by fastforce
  show ?thesis using h a1 a2 a3 e c by blast
qed

text \<open>
  C6, as stated, also has an (ON, OUTSIDE) pair use a cached, interpolated intersection
  point. The unit box is cut by the plane through the origin with normal \<open>(1, 1, 0)\<close>;
  its vertices are INSIDE, ON, OUTSIDE, ON, INSIDE, ON, OUTSIDE, ON. The face
  \<open>[0, 3, 2, 1]\<close> has the pair \<open>(3, 2)\<close>, ON and OUTSIDE; the cache has no entry for
  it, the cut adds no vertex to the copied ones, and the cap edge of the pair carries the
  index 2 of the copy of vertex 3.
\<close>

theorem on_outside_pair_not_interpolated:
  "hasOutside unitBox diagonalPlane \<and> hasInside unitBox diagonalPlane \<and>
   (3, 2) \<in> set (face_edges unitBox) \<and>
   elem (classifications unitBox diagonalPlane) 3 = Some ON \<and>
   elem (classifications unitBox diagonalPlane) 2 = Some OUTSIDE \<and>
   edgeIntersections (rebuild unitBox diagonalPlane) (getEdgeKey 3 2) = None \<and>
   newVertices (rebuild unitBox diagonalPlane) =
     snd (copyInside (vertices unitBox) (classifications unitBox diagonalPlane)) \<and>
   (2, 3, 2) \<in> set (capEdges (rebuild unitBox diagonalPlane)) \<and>
   newVertices (rebuild unitBox diagonalPlane) ! 2 = vertices unitBox ! 3"
  unfolding hasOutside_def hasInside_def unitBox_diagonal_rebuild unitBox_diagonal_classifications
    unitBox_vertices unitBox_diagonal_copyInside
  by (simp add: face_edges_def consecutive_def unitBox_faces elem_def getEdgeKey_def)

end
